theory Spec2Isabelle
  imports Complex_Main
begin

section \<open>Conventions\<close>

text \<open>
  The development embeds the AI routing core of \<^verbatim>\<open>server-multi-ai.js\<close>:
  the Gemini key rotation (\<^verbatim>\<open>getNextGeminiKey\<close>), the key preview of
  \<^verbatim>\<open>/api/ai-status\<close>, the PDF branch of the Gemini adapter, the dispatcher
  \<^verbatim>\<open>callAIWithFallback\<close> and the handler of \<^verbatim>\<open>/api/ai-guidance\<close>.

  A JavaScript string is a sequence of code units and is modelled as a \<open>string\<close>, one
  \<open>char\<close> per code unit; \<open>length\<close>, \<open>take\<close> and \<open>drop\<close> are then
  \<^verbatim>\<open>.length\<close> and \<^verbatim>\<open>.substring\<close>. The emoji that decorate the source's
  literals are named constants that hold their UTF-8 bytes; no statement depends on
  their length. \<^verbatim>\<open>Date.now()\<close> is an \<open>int\<close> (milliseconds): the argument \<open>now\<close> of
  the key rotation, which reads the clock once, and a reading of the outside world for
  the dispatcher and the handler. Variables that the source mutates are passed in and
  returned. An exception is a value \<open>Inl e\<close> of a sum type.
\<close>

datatype js_error =
    TypeError string   \<comment> \<open>raised by the runtime, e.g. a property read on \<^verbatim>\<open>undefined\<close>\<close>
  | Error string       \<comment> \<open>\<^verbatim>\<open>new Error(message)\<close> thrown by the program\<close>

section \<open>Gemini key rotation\<close>

text \<open>One entry of \<^verbatim>\<open>keyUsageTracking\<close> (source lines 322-327).\<close>

record tracking =
  requestCount :: int
  lastReset :: int
  isBlocked :: bool
  blockUntil :: int

text \<open>
  The three module-level variables of the rotation system (lines 307-309).
  \<^verbatim>\<open>keyUsageTracking\<close> is an object indexed by number: a map.
\<close>

record ledger =
  geminiApiKeys :: "string list"
  currentKeyIndex :: nat
  keyUsageTracking :: "nat \<rightharpoonup> tracking"

definition RATE_LIMIT :: int where
  "RATE_LIMIT = 15"

definition MINUTE :: int where
  "MINUTE = 60000"

text \<open>Lines 350-354: the counter is reset when more than a minute has passed.\<close>

definition resetIfElapsed :: "int \<Rightarrow> tracking \<Rightarrow> tracking" where
  "resetIfElapsed now t =
     (if now - lastReset t > MINUTE
      then t\<lparr>requestCount := 0, lastReset := now, isBlocked := False\<rparr>
      else t)"

text \<open>Lines 379-380: a key found at its limit is blocked until the end of its minute.\<close>

definition blockKey :: "tracking \<Rightarrow> tracking" where
  "blockKey t = t\<lparr>isBlocked := True, blockUntil := lastReset t + MINUTE\<rparr>"

text \<open>
  The \<^verbatim>\<open>for\<close> loop of lines 345-382, from iteration \<open>i\<close> on. The tracking
  object is mutated in place, so every branch stores the record back into the map.
  Reading a field of a missing tracking entry is a \<^verbatim>\<open>TypeError\<close>.
\<close>

function scanKeys :: "int \<Rightarrow> nat \<Rightarrow> ledger \<Rightarrow> (js_error + string option) \<times> ledger" where
  "scanKeys now i L =
     (if i < length (geminiApiKeys L) then
        (let keyIndex = (currentKeyIndex L + i) mod length (geminiApiKeys L) in
         case keyUsageTracking L keyIndex of
           None \<Rightarrow> (Inl (TypeError ''Cannot read properties of undefined (reading lastReset)''), L)
         | Some t0 \<Rightarrow>
             (let t1 = resetIfElapsed now t0 in
              if isBlocked t1 \<and> now < blockUntil t1 then
                scanKeys now (i + 1)
                  (L\<lparr>keyUsageTracking := (keyUsageTracking L)(keyIndex \<mapsto> t1)\<rparr>)
              else if requestCount t1 < RATE_LIMIT then
                (Inr (Some (geminiApiKeys L ! keyIndex)),
                 L\<lparr>keyUsageTracking :=
                      (keyUsageTracking L)(keyIndex \<mapsto> t1\<lparr>requestCount := requestCount t1 + 1\<rparr>),
                    currentKeyIndex := (keyIndex + 1) mod length (geminiApiKeys L)\<rparr>)
              else
                scanKeys now (i + 1)
                  (L\<lparr>keyUsageTracking := (keyUsageTracking L)(keyIndex \<mapsto> blockKey t1)\<rparr>)))
      else (Inr None, L))"
  by pat_completeness auto
termination
  by (relation "measure (\<lambda>(now, i, L). length (geminiApiKeys L) - i)") auto

declare scanKeys.simps [simp del]

text \<open>
  \<^verbatim>\<open>getNextGeminiKey\<close> (lines 336-387). \<open>None\<close> is \<^verbatim>\<open>null\<close>. With a single key
  the tracking is neither read nor written.
\<close>

definition getNextGeminiKey :: "int \<Rightarrow> ledger \<Rightarrow> (js_error + string option) \<times> ledger" where
  "getNextGeminiKey now L =
     (if length (geminiApiKeys L) = 0 then (Inr None, L)
      else if length (geminiApiKeys L) = 1 then (Inr (Some (geminiApiKeys L ! 0)), L)
      else scanKeys now 0 L)"

text \<open>
  The scan order and the tests of one loop iteration, named so that the theorems can
  speak of them: \<open>cand L i\<close> is \<^verbatim>\<open>keyIndex\<close> in iteration \<open>i\<close>; \<open>skipped\<close> is the
  test of line 357 and \<open>available\<close> the test of line 364, both on the record as it is
  after lines 350-354; \<open>passOver\<close> is what an iteration that does not return leaves in
  the record, and \<open>passed now L k\<close> is the ledger after \<open>k\<close> such iterations.
\<close>

definition cand :: "ledger \<Rightarrow> nat \<Rightarrow> nat" where
  "cand L i = (currentKeyIndex L + i) mod length (geminiApiKeys L)"

definition skipped :: "int \<Rightarrow> tracking \<Rightarrow> bool" where
  "skipped now t =
     (isBlocked (resetIfElapsed now t) \<and> now < blockUntil (resetIfElapsed now t))"

definition available :: "int \<Rightarrow> tracking \<Rightarrow> bool" where
  "available now t =
     (\<not> skipped now t \<and> requestCount (resetIfElapsed now t) < RATE_LIMIT)"

definition passOver :: "int \<Rightarrow> tracking \<Rightarrow> tracking" where
  "passOver now t =
     (if skipped now t then resetIfElapsed now t else blockKey (resetIfElapsed now t))"

definition passed :: "int \<Rightarrow> ledger \<Rightarrow> nat \<Rightarrow> ledger" where
  "passed now L k =
     L\<lparr>keyUsageTracking :=
        (\<lambda>x. if x \<in> cand L ` {0..<k} then map_option (passOver now) (keyUsageTracking L x)
             else keyUsageTracking L x)\<rparr>"

text \<open>
  Ledgers used as concrete inputs, taken from a run of two keys loaded at time 0:
  \<open>pool c a b\<close> has the cursor at \<open>c\<close> and the tracking records \<open>a\<close> and \<open>b\<close>;
  \<open>usage n start blocked until\<close> is a tracking record. \<open>single\<close> is a pool of one
  key, whose record stays as it was created.
\<close>

definition usage :: "int \<Rightarrow> int \<Rightarrow> bool \<Rightarrow> int \<Rightarrow> tracking" where
  "usage n start blocked until =
     \<lparr>requestCount = n, lastReset = start, isBlocked = blocked, blockUntil = until\<rparr>"

definition pool :: "nat \<Rightarrow> tracking \<Rightarrow> tracking \<Rightarrow> ledger" where
  "pool c a b =
     \<lparr>geminiApiKeys = [''key-A'', ''key-B''],
      currentKeyIndex = c,
      keyUsageTracking = [0 \<mapsto> a, Suc 0 \<mapsto> b]\<rparr>"

definition single :: ledger where
  "single =
     \<lparr>geminiApiKeys = [''key-A''],
      currentKeyIndex = 0,
      keyUsageTracking = [0 \<mapsto> usage 0 0 False 0]\<rparr>"

section \<open>Key preview of the status endpoint\<close>

text \<open>
  Line 2184. \<^verbatim>\<open>substring(0, 10)\<close> stops at the end of a shorter string, and
  \<^verbatim>\<open>substring(key.length - 4)\<close> starts at 0 when the argument is negative, which is
  what \<open>take\<close> and truncated subtraction under \<open>drop\<close> do.
\<close>

definition key_preview :: "string \<Rightarrow> string" where
  "key_preview key = take 10 key @ ''...'' @ drop (length key - 4) key"

section \<open>JavaScript strings\<close>

text \<open>
  An absent property reads as \<^verbatim>\<open>undefined\<close>: an optional string is \<open>None\<close> then.
  \<open>truthy\<close> is the test that \<^verbatim>\<open>if (s)\<close>, \<^verbatim>\<open>s && ...\<close> and \<^verbatim>\<open>s || ...\<close> make on
  it, and \<open>str\<close> is what a template literal prints for it.
\<close>

definition truthy :: "string option \<Rightarrow> bool" where
  "truthy s = (case s of None \<Rightarrow> False | Some x \<Rightarrow> x \<noteq> [])"

definition str :: "string option \<Rightarrow> string" where
  "str s = (case s of None \<Rightarrow> ''undefined'' | Some x \<Rightarrow> x)"

definition startsWith :: "string \<Rightarrow> string \<Rightarrow> bool" where
  "startsWith s p = (take (length p) s = p)"

definition endsWith :: "string \<Rightarrow> string \<Rightarrow> bool" where
  "endsWith s p = (drop (length s - length p) s = p)"

fun js_includes :: "string \<Rightarrow> string \<Rightarrow> bool" where
  "js_includes [] p = (p = [])"
| "js_includes (c # cs) p = (startsWith (c # cs) p \<or> js_includes cs p)"

text \<open>\<^verbatim>\<open>s.split(',')[1]\<close>: the text between the first and the second comma, if any.\<close>

definition splitComma1 :: "string \<Rightarrow> string option" where
  "splitComma1 s =
     (case dropWhile (\<lambda>c. c \<noteq> CHR '','') s of
        [] \<Rightarrow> None
      | c # r \<Rightarrow> Some (takeWhile (\<lambda>c. c \<noteq> CHR '','') r))"

text \<open>\<^verbatim>\<open>join(', ')\<close> of an array of strings.\<close>

fun joinComma :: "string list \<Rightarrow> string" where
  "joinComma [] = []"
| "joinComma [x] = x"
| "joinComma (x # y # ys) = x @ '', '' @ joinComma (y # ys)"

text \<open>
  \<^verbatim>\<open>trim()\<close> removes white space and line terminators at both ends; among the code
  units below 256 these are tab, line feed, vertical tab, form feed, carriage return,
  space and no-break space.
\<close>

definition isWhiteSpace :: "char \<Rightarrow> bool" where
  "isWhiteSpace c =
     (c = CHR 0x09 \<or> c = CHR 0x0A \<or> c = CHR 0x0B \<or> c = CHR 0x0C \<or> c = CHR 0x0D
      \<or> c = CHR 0x20 \<or> c = CHR 0xA0)"

definition js_trim :: "string \<Rightarrow> string" where
  "js_trim s = rev (dropWhile isWhiteSpace (rev (dropWhile isWhiteSpace s)))"

text \<open>\<^verbatim>\<open>toLowerCase()\<close>, on the letters A to Z.\<close>

definition toLowerCase :: "string \<Rightarrow> string" where
  "toLowerCase s =
     map (\<lambda>c. if 65 \<le> (of_char c :: nat) \<and> (of_char c :: nat) \<le> 90
              then char_of ((of_char c :: nat) + 32) else c) s"

text \<open>A non-negative integer printed by a template literal.\<close>

fun showNat :: "nat \<Rightarrow> string" where
  "showNat n =
     (if n < 10 then [''0123456789'' ! n]
      else showNat (n div 10) @ [''0123456789'' ! (n mod 10)])"

declare showNat.simps [simp del]

text \<open>The emoji of the literals that the model contains, as their UTF-8 bytes, and the
  double quote.\<close>

definition emoji_paperclip :: string where
  "emoji_paperclip = [CHR 0xF0, CHR 0x9F, CHR 0x93, CHR 0x8E]"

definition emoji_page :: string where
  "emoji_page = [CHR 0xF0, CHR 0x9F, CHR 0x93, CHR 0x84]"

definition emoji_warning :: string where
  "emoji_warning = [CHR 0xE2, CHR 0x9A, CHR 0xA0, CHR 0xEF, CHR 0xB8, CHR 0x8F]"

definition dquote :: string where
  "dquote = [CHR 0x22]"

text \<open>\<^verbatim>\<open>error.message\<close>.\<close>

fun message_of :: "js_error \<Rightarrow> string" where
  "message_of (TypeError m) = m"
| "message_of (Error m) = m"

section \<open>Attached files and the Gemini adapter's file processing\<close>

text \<open>
  An element of \<^verbatim>\<open>req.body.files\<close>. The adapters read \<^verbatim>\<open>name\<close>, \<^verbatim>\<open>type\<close> and
  \<^verbatim>\<open>content\<close> (lines 468-572, 739-757); the dispatcher reads \<^verbatim>\<open>name\<close> and
  \<^verbatim>\<open>mimeType\<close> (line 1061). The body is JSON from the client, so each property may be
  absent.
\<close>

record jsfile =
  file_name :: "string option"
  file_type :: "string option"
  file_mimeType :: "string option"
  file_content :: "string option"

text \<open>The result of \<^verbatim>\<open>pdfParse\<close>, as far as the adapter reads it.\<close>

record pdfData =
  pdf_text :: string
  numpages :: nat

text \<open>
  The \<^verbatim>\<open>parts\<close> array while the files are processed: the text of \<^verbatim>\<open>parts[0]\<close>, the
  \<^verbatim>\<open>inline_data\<close> parts pushed after it (mime type and data), and \<^verbatim>\<open>hasFiles\<close>.
\<close>

record gemini_parts =
  prompt_text :: string
  inline_parts :: "(string \<times> string) list"
  hasFiles :: bool

text \<open>
  Lines 467-473: the list of attached files in the prompt, printed from \<^verbatim>\<open>f.name\<close>
  and \<^verbatim>\<open>f.type\<close>.
\<close>

definition geminiInitialParts :: "string \<Rightarrow> jsfile list \<Rightarrow> gemini_parts" where
  "geminiInitialParts prompt files =
     \<lparr>prompt_text =
        (if length files > 0 then
           prompt @ ''\<newline>\<newline>'' @ emoji_paperclip @ '' ATTACHED FILES: ''
             @ joinComma (map (\<lambda>f. str (file_name f) @ '' ('' @ str (file_type f) @ '')'') files)
             @ ''\<newline>''
             @ ''IMPORTANT: The user has attached files. Please analyze the attached files and answer based on their content. Do NOT ask the user to provide the files again.\<newline>\<newline>''
         else prompt),
      inline_parts = [],
      hasFiles = False\<rparr>"

text \<open>The \<^verbatim>\<open>if\<close> / \<^verbatim>\<open>else if\<close> chain of lines 482, 506, 555 and 567.\<close>

datatype file_kind = ImageFile | PdfFile | TextFile | UnknownFile

definition typeIncludes :: "jsfile \<Rightarrow> string \<Rightarrow> bool" where
  "typeIncludes file p = (case file_type file of None \<Rightarrow> False | Some t \<Rightarrow> t \<noteq> [] \<and> js_includes t p)"

definition fileKind :: "jsfile \<Rightarrow> file_kind" where
  "fileKind file =
     (if typeIncludes file ''image'' then ImageFile
      else if typeIncludes file ''pdf'' then PdfFile
      else if typeIncludes file ''text'' \<or> typeIncludes file ''plain'' then TextFile
      else UnknownFile)"

text \<open>Line 572: an unknown type, but a file name that ends in \<^verbatim>\<open>.pdf\<close>.\<close>

definition namedPdf :: "jsfile \<Rightarrow> bool" where
  "namedPdf file =
     (case file_name file of None \<Rightarrow> False
      | Some n \<Rightarrow> n \<noteq> [] \<and> endsWith (toLowerCase n) ''.pdf'')"

text \<open>\<^verbatim>\<open>file.content && file.content.startsWith('data:')\<close>.\<close>

definition dataContent :: "jsfile \<Rightarrow> string option" where
  "dataContent file =
     (case file_content file of None \<Rightarrow> None
      | Some c \<Rightarrow> if c \<noteq> [] \<and> startsWith c ''data:'' then Some c else None)"

text \<open>
  Line 486: \<^verbatim>\<open>content.match(/^data:([^;]+);base64,(.+)$/)\<close>. The first group cannot
  hold a semicolon, so it is the text up to the first one; the second group is the rest,
  not empty and without a line terminator.
\<close>

definition matchDataUrl :: "string \<Rightarrow> (string \<times> string) option" where
  "matchDataUrl s =
     (if startsWith s ''data:'' then
        (let r = drop 5 s;
             mimeType = takeWhile (\<lambda>c. c \<noteq> CHR '';'') r;
             t = drop (length mimeType) r;
             base64Data = drop 8 t
         in if mimeType \<noteq> [] \<and> startsWith t '';base64,'' \<and> base64Data \<noteq> []
               \<and> list_all (\<lambda>c. c \<noteq> CHR 0x0A \<and> c \<noteq> CHR 0x0D) base64Data
            then Some (mimeType, base64Data) else None)
      else None)"

text \<open>
  Lines 509-521 and 575-582: the text of a PDF. \<open>pdfParse\<close> stands for
  \<^verbatim>\<open>Buffer.from(base64Data, 'base64')\<close> followed by the library call
  \<^verbatim>\<open>pdfParse(pdfBuffer)\<close>, which may throw. Without a comma in the content,
  \<^verbatim>\<open>base64Data\<close> is \<^verbatim>\<open>undefined\<close> and \<^verbatim>\<open>Buffer.from\<close> throws. The result is
  \<^verbatim>\<open>pdfData\<close> with \<^verbatim>\<open>extractedText\<close>, or \<open>None\<close> when the content is not a data URL.
\<close>

definition parsePdf ::
  "(string \<Rightarrow> js_error + pdfData) \<Rightarrow> jsfile \<Rightarrow> js_error + (pdfData \<times> string) option" where
  "parsePdf pdfParse file =
     (case dataContent file of
        None \<Rightarrow> Inr None
      | Some c \<Rightarrow>
          (case splitComma1 c of
             None \<Rightarrow> Inl (TypeError ''The first argument must be of type string or an instance of Buffer, ArrayBuffer, or Array or an Array-like Object. Received undefined'')
           | Some base64Data \<Rightarrow>
               (case pdfParse base64Data of
                  Inl err \<Rightarrow> Inl err
                | Inr pdfData \<Rightarrow> Inr (Some (pdfData, js_trim (pdf_text pdfData))))))"

text \<open>Lines 524-542 and 585-602: what is appended to the prompt for a parsed PDF.\<close>

definition pdfSection :: "jsfile \<Rightarrow> pdfData \<Rightarrow> string \<Rightarrow> string" where
  "pdfSection file pdfData extractedText =
     (let maxLength = 50000;
          wasTruncated = (length extractedText > maxLength);
          textToSend = (if wasTruncated then take maxLength extractedText else extractedText)
      in ''\<newline>\<newline>'' @ emoji_page @ '' PDF FILE: '' @ str (file_name file) @ ''\<newline>''
         @ ''Pages: '' @ showNat (numpages pdfData) @ ''\<newline>''
         @ (if wasTruncated
            then ''Note: PDF is large, showing first '' @ showNat maxLength @ '' characters\<newline>''
            else [])
         @ ''Content:\<newline>'' @ textToSend @ ''\<newline>''
         @ ''\<newline>[End of PDF content]\<newline>'')"

text \<open>
  The body of the loop over the files (lines 480-613). \<open>decodeText\<close> stands for
  \<^verbatim>\<open>Buffer.from(base64Content, 'base64').toString('utf-8')\<close>. Every branch has its own
  \<^verbatim>\<open>try\<close>; only the PDF branch by type adds a note to the prompt in its \<^verbatim>\<open>catch\<close>
  and for a text of at most ten characters.
\<close>

definition processFile ::
  "(string \<Rightarrow> js_error + pdfData) \<Rightarrow> (string \<Rightarrow> string) \<Rightarrow> gemini_parts \<Rightarrow> jsfile \<Rightarrow> gemini_parts" where
  "processFile pdfParse decodeText parts file =
     (case fileKind file of
        ImageFile \<Rightarrow>
          (case dataContent file of
             None \<Rightarrow> parts
           | Some c \<Rightarrow>
               (case matchDataUrl c of
                  None \<Rightarrow> parts
                | Some (mimeType, base64Data) \<Rightarrow>
                    parts\<lparr>inline_parts := inline_parts parts @ [(mimeType, base64Data)],
                          hasFiles := True\<rparr>))
      | PdfFile \<Rightarrow>
          (case parsePdf pdfParse file of
             Inl err \<Rightarrow>
               parts\<lparr>prompt_text := prompt_text parts @ ''\<newline>\<newline>'' @ emoji_warning
                  @ '' Could not parse PDF '' @ dquote @ str (file_name file) @ dquote @ '': '' @ message_of err
                  @ ''\<newline>''\<rparr>
           | Inr None \<Rightarrow> parts
           | Inr (Some (pdfData, extractedText)) \<Rightarrow>
               if extractedText \<noteq> [] \<and> length extractedText > 10 then
                 parts\<lparr>prompt_text := prompt_text parts @ pdfSection file pdfData extractedText,
                       hasFiles := True\<rparr>
               else
                 parts\<lparr>prompt_text := prompt_text parts @ ''\<newline>\<newline>'' @ emoji_warning
                    @ '' PDF file '' @ dquote @ str (file_name file) @ dquote
                    @ '' was uploaded but text extraction yielded minimal content. The PDF may contain images or scanned content.\<newline>''\<rparr>)
      | TextFile \<Rightarrow>
          (case dataContent file of
             None \<Rightarrow> parts
           | Some c \<Rightarrow>
               (case splitComma1 c of
                  None \<Rightarrow> parts
                | Some base64Content \<Rightarrow>
                    parts\<lparr>prompt_text := prompt_text parts @ ''\<newline>\<newline>'' @ emoji_page
                       @ '' File: '' @ str (file_name file) @ ''\<newline>''
                       @ decodeText base64Content\<rparr>))
      | UnknownFile \<Rightarrow>
          (if namedPdf file then
             (case parsePdf pdfParse file of
                Inl err \<Rightarrow> parts
              | Inr None \<Rightarrow> parts
              | Inr (Some (pdfData, extractedText)) \<Rightarrow>
                  if extractedText \<noteq> [] \<and> length extractedText > 10 then
                    parts\<lparr>prompt_text := prompt_text parts @ pdfSection file pdfData extractedText,
                          hasFiles := True\<rparr>
                  else parts)
           else parts))"

text \<open>Lines 463-620: the parts sent to Gemini for a prompt and its files.\<close>

definition geminiParts ::
  "(string \<Rightarrow> js_error + pdfData) \<Rightarrow> (string \<Rightarrow> string) \<Rightarrow> string \<Rightarrow> jsfile list \<Rightarrow> gemini_parts" where
  "geminiParts pdfParse decodeText prompt files =
     foldl (processFile pdfParse decodeText) (geminiInitialParts prompt files) files"

text \<open>A PDF of three pages whose text has 120000 characters, and a file that carries it.\<close>

definition long_pdf :: "string \<Rightarrow> js_error + pdfData" where
  "long_pdf base64Data = Inr \<lparr>pdf_text = replicate 120000 CHR ''x'', numpages = 3\<rparr>"

definition pdf_file :: jsfile where
  "pdf_file =
     \<lparr>file_name = Some ''notes.pdf'', file_type = Some ''application/pdf'',
      file_mimeType = None, file_content = Some ''data:application/pdf;base64,JVBERi0=''\<rparr>"

section \<open>Loading the Gemini keys\<close>

text \<open>
  The environment variables that \<^verbatim>\<open>initializeGeminiKeys\<close> reads (lines 314-317);
  \<open>envKeys\<close> is the local array \<^verbatim>\<open>keys\<close>.
\<close>

record gemini_env =
  GEMINI_API_KEY :: "string option"
  GEMINI_API_KEY_2 :: "string option"
  GEMINI_API_KEY_3 :: "string option"
  GEMINI_API_KEY_4 :: "string option"

definition envKeys :: "gemini_env \<Rightarrow> string list" where
  "envKeys env =
     (if truthy (GEMINI_API_KEY env) then [the (GEMINI_API_KEY env)] else [])
     @ (if truthy (GEMINI_API_KEY_2 env) then [the (GEMINI_API_KEY_2 env)] else [])
     @ (if truthy (GEMINI_API_KEY_3 env) then [the (GEMINI_API_KEY_3 env)] else [])
     @ (if truthy (GEMINI_API_KEY_4 env) then [the (GEMINI_API_KEY_4 env)] else [])"

text \<open>
  The \<^verbatim>\<open>forEach\<close> of lines 319-329 over the keys with their indices: a key that
  is blank after \<^verbatim>\<open>trim()\<close> is left out of \<^verbatim>\<open>geminiApiKeys\<close>, and the tracking
  record of a key is stored under its index in \<^verbatim>\<open>keys\<close>. \<open>clock index\<close> is the
  value of \<^verbatim>\<open>Date.now()\<close> in that iteration.
\<close>

fun loadKeys :: "(nat \<Rightarrow> int) \<Rightarrow> (nat \<times> string) list \<Rightarrow> ledger \<Rightarrow> ledger" where
  "loadKeys clock [] L = L"
| "loadKeys clock ((index, key) # rest) L =
     loadKeys clock rest
       (if key \<noteq> [] \<and> js_trim key \<noteq> [] then
          L\<lparr>geminiApiKeys := geminiApiKeys L @ [js_trim key],
            keyUsageTracking := (keyUsageTracking L)
              (index \<mapsto> \<lparr>requestCount = 0, lastReset = clock index, isBlocked = False,
                          blockUntil = 0\<rparr>)\<rparr>
        else L)"

text \<open>The state that \<^verbatim>\<open>initializeGeminiKeys\<close> leaves (lines 312-333).\<close>

definition initializeGeminiKeys :: "(nat \<Rightarrow> int) \<Rightarrow> gemini_env \<Rightarrow> ledger" where
  "initializeGeminiKeys clock env =
     loadKeys clock (enumerate 0 (envKeys env))
       \<lparr>geminiApiKeys = [], currentKeyIndex = 0, keyUsageTracking = Map.empty\<rparr>"

text \<open>An environment whose first key is blank.\<close>

definition blank_first_env :: gemini_env where
  "blank_first_env =
     \<lparr>GEMINI_API_KEY = Some '' '', GEMINI_API_KEY_2 = Some ''key-A'',
      GEMINI_API_KEY_3 = Some ''key-B'', GEMINI_API_KEY_4 = None\<rparr>"

text \<open>
  What holds of every tracking record in a run: the count stays between 0 and the
  limit, and a blocked record is blocked until the end of its minute.
\<close>

definition record_ok :: "tracking \<Rightarrow> bool" where
  "record_ok t =
     (0 \<le> requestCount t \<and> requestCount t \<le> RATE_LIMIT
      \<and> (isBlocked t \<longrightarrow> blockUntil t = lastReset t + MINUTE))"

definition ledger_ok :: "ledger \<Rightarrow> bool" where
  "ledger_ok L = (\<forall>x t. keyUsageTracking L x = Some t \<longrightarrow> record_ok t)"

text \<open>
  A run: two keys loaded at time 0, and a list of the times at which
  \<^verbatim>\<open>getNextGeminiKey\<close> is called. Thirty calls in the first minute, then calls at
  40000, 61000 and 65000, twenty-eight calls from 66000 on, and calls at 90000 and
  122000.
\<close>

fun acquireAll :: "int list \<Rightarrow> ledger \<Rightarrow> ledger" where
  "acquireAll [] L = L"
| "acquireAll (now # rest) L = acquireAll rest (snd (getNextGeminiKey now L))"

definition two_key_env :: gemini_env where
  "two_key_env =
     \<lparr>GEMINI_API_KEY = Some ''key-A'', GEMINI_API_KEY_2 = Some ''key-B'',
      GEMINI_API_KEY_3 = None, GEMINI_API_KEY_4 = None\<rparr>"

definition loaded :: ledger where
  "loaded = initializeGeminiKeys (\<lambda>index. 0) two_key_env"

definition first_minute :: "int list" where
  "first_minute = map (\<lambda>i. 1000 * int i) [1..<31]"

definition second_minute :: "int list" where
  "second_minute = map (\<lambda>i. 66000 + 500 * int i) [0..<28]"

section \<open>Providers and the dispatcher\<close>

text \<open>
  A chat message, the argument of \<^verbatim>\<open>createChatCompletion\<close> as the handler builds
  it (lines 1783-1800), and what an adapter returns: \<open>message\<close> is
  \<^verbatim>\<open>result.choices[0].message\<close> when \<^verbatim>\<open>result.choices && result.choices[0] &&
  result.choices[0].message\<close> holds, and \<open>None\<close> otherwise.
\<close>

record chat_message =
  role :: string
  content :: string

record params =
  messages :: "chat_message list"
  files :: "jsfile list"
  conversationHistory :: "chat_message list"
  max_tokens :: nat
  temperature :: rat
  stream :: bool

record completion =
  message :: "chat_message option"

text \<open>
  An element of \<^verbatim>\<open>aiProviders\<close>. The adapter \<^verbatim>\<open>client.createChatCompletion\<close> calls
  an outside service: it is a function of its argument and of the state \<open>'w\<close> of
  everything outside the dispatcher (the network, the key ledger), and it either throws
  or returns. \<^verbatim>\<open>Date.now()\<close> reads the clock of that state and lets time pass: it is
  the argument \<open>now\<close> of the functions below.
\<close>

record 'w provider =
  name :: string
  type :: string
  priority :: int
  speed :: string
  model :: string
  createChatCompletion :: "params \<Rightarrow> 'w \<Rightarrow> (js_error + completion) \<times> 'w"

text \<open>The object that \<^verbatim>\<open>callAIWithFallback\<close> returns (lines 1080-1086).\<close>

record ai_result = completion +
  result_provider :: string
  result_model :: string
  result_responseTime :: int
  result_speed :: string

text \<open>
  One invocation of an adapter: the name of the provider, the argument it was given and
  what it answered. The functions below return the list of the invocations they made,
  in order, beside their result.
\<close>

record call_entry =
  callee :: string
  argument :: params
  answer :: "js_error + completion"

text \<open>Line 1061, printed from \<^verbatim>\<open>f.name\<close> and \<^verbatim>\<open>f.mimeType\<close>.\<close>

definition fileInfo :: "jsfile list \<Rightarrow> string" where
  "fileInfo fs =
     joinComma (map (\<lambda>f. emoji_paperclip @ '' '' @ str (file_name f)
                          @ '' ('' @ str (file_mimeType f) @ '')'') fs)"

text \<open>Line 1066: the content of the last message, when it is a user message.\<close>

definition withFileNote :: "string \<Rightarrow> string \<Rightarrow> string" where
  "withFileNote msgContent info =
     msgContent @ ''\<newline>\<newline>[Note: User uploaded files: '' @ info
       @ ''. Please acknowledge that you cannot process these files and ask the user to describe the content instead.]''"

text \<open>Lines 1053-1072: \<^verbatim>\<open>modifiedParams\<close> for a provider.\<close>

definition modifyParams :: "'w provider \<Rightarrow> params \<Rightarrow> params" where
  "modifyParams provider params =
     (if (type provider = ''groq'' \<or> type provider = ''cohere'') \<and> length (files params) > 0 then
        (let modifiedParams = params\<lparr>files := []\<rparr> in
         if length (files params) > 0 then
           modifiedParams\<lparr>messages :=
             map (\<lambda>(index, msg).
                    if index = length (messages modifiedParams) - 1 \<and> role msg = ''user''
                    then msg\<lparr>content := withFileNote (content msg) (fileInfo (files params))\<rparr>
                    else msg)
                 (enumerate 0 (messages modifiedParams))\<rparr>
         else modifiedParams)
      else params)"

text \<open>
  The body of the \<^verbatim>\<open>try\<close> of one loop iteration (lines 1050-1086), with the outcome
  of the adapter: \<open>Inl\<close> is the error that the \<^verbatim>\<open>catch\<close> of line 1087 receives.
\<close>

definition attempt ::
  "('w \<Rightarrow> int \<times> 'w) \<Rightarrow> 'w provider \<Rightarrow> params \<Rightarrow> 'w \<Rightarrow> (js_error + ai_result) \<times> call_entry \<times> 'w" where
  "attempt now provider params w =
     (let (startTime, w1) = now w;
          modifiedParams = modifyParams provider params;
          (ans, w2) = createChatCompletion provider modifiedParams w1;
          entry = \<lparr>callee = name provider, argument = modifiedParams, answer = ans\<rparr>
      in case ans of
           Inl error \<Rightarrow> (Inl error, entry, w2)
         | Inr result \<Rightarrow>
             (let (endTime, w3) = now w2;
                  responseTime = endTime - startTime
              in (Inr \<lparr>message = message result,
                       result_provider = name provider,
                       result_model = model provider,
                       result_responseTime = responseTime,
                       result_speed = speed provider\<rparr>,
                  entry, w3)))"

text \<open>
  The \<^verbatim>\<open>for\<close> loop of lines 1047-1098 from iteration \<open>i\<close> on. A function that
  leaves the loop without \<^verbatim>\<open>return\<close> yields \<^verbatim>\<open>undefined\<close>: \<open>Inr None\<close>.
\<close>

function tryProviders ::
  "('w \<Rightarrow> int \<times> 'w) \<Rightarrow> 'w provider list \<Rightarrow> params \<Rightarrow> nat \<Rightarrow> 'w
     \<Rightarrow> (js_error + ai_result option) \<times> call_entry list \<times> 'w" where
  "tryProviders now aiProviders params i w =
     (if i < length aiProviders then
        (case attempt now (aiProviders ! i) params w of
           (Inr result, entry, w') \<Rightarrow> (Inr (Some result), [entry], w')
         | (Inl error, entry, w') \<Rightarrow>
             if i = length aiProviders - 1 then (Inl error, [entry], w')
             else (case tryProviders now aiProviders params (i + 1) w' of
                     (r, entries, w'') \<Rightarrow> (r, entry # entries, w'')))
      else (Inr None, [], w))"
  by pat_completeness auto
termination
  by (relation "measure (\<lambda>(now, aiProviders, params, i, w). length aiProviders - i)") auto

declare tryProviders.simps [simp del]

text \<open>\<^verbatim>\<open>callAIWithFallback\<close> (lines 1042-1099).\<close>

definition callAIWithFallback ::
  "('w \<Rightarrow> int \<times> 'w) \<Rightarrow> 'w provider list \<Rightarrow> params \<Rightarrow> 'w
     \<Rightarrow> (js_error + ai_result option) \<times> call_entry list \<times> 'w" where
  "callAIWithFallback now aiProviders params w =
     (if length aiProviders = 0 then (Inl (Error ''No AI providers available''), [], w)
      else tryProviders now aiProviders params 0 w)"

section \<open>The handler of /api/ai-guidance\<close>

text \<open>
  The properties of \<^verbatim>\<open>req.body\<close> that the handler reads (line 1687), each of them
  possibly absent.
\<close>

record request_body =
  query :: "string option"
  body_files :: "jsfile list option"
  preferredProvider :: "string option"
  body_conversationHistory :: "chat_message list option"

text \<open>
  The answer of the handler: the status 400 with its message, or the JSON object of
  lines 1839-1858 and 1873-1882, of which the fields that depend on the providers are
  kept.
\<close>

record guidance_response =
  success :: bool
  guidance :: string
  response_provider :: string
  response_model :: string
  response_speed :: string
  response_responseTime :: int
  response_error :: "string option"

datatype http_response = Status400 string | Json guidance_response

text \<open>The local variables of lines 1718-1722.\<close>

record vars =
  v_guidance :: "string option"
  v_provider :: string
  v_responseTime :: int
  v_model :: string
  v_speed :: string

text \<open>
  \<^verbatim>\<open>generateEnhancedFallbackGuidance\<close> (lines 1887-2100). Its first statement is
  \<^verbatim>\<open>query.toLowerCase()\<close>, which throws when the query is absent; otherwise it returns
  the page that it builds from the query, \<open>page\<close>.
\<close>

definition generateEnhancedFallbackGuidance ::
  "(string \<Rightarrow> string) \<Rightarrow> string option \<Rightarrow> js_error + string" where
  "generateEnhancedFallbackGuidance page q =
     (case q of
        None \<Rightarrow> Inl (TypeError ''Cannot read properties of undefined (reading toLowerCase)'')
      | Some s \<Rightarrow> Inr (page s))"

text \<open>The argument of the adapters (lines 1736-1754 and 1782-1800).\<close>

definition requestParams :: "string \<Rightarrow> request_body \<Rightarrow> params" where
  "requestParams enhancedSystemPrompt body =
     (let fullConversationHistory =
            (case body_conversationHistory body of None \<Rightarrow> [] | Some h \<Rightarrow> h)
      in \<lparr>messages =
            [\<lparr>role = ''system'', content = enhancedSystemPrompt\<rparr>]
            @ fullConversationHistory
            @ [\<lparr>role = ''user'',
                content = (if truthy (query body) then the (query body)
                           else ''Please analyze the attached files.'')\<rparr>],
          files = (case body_files body of None \<Rightarrow> [] | Some fs \<Rightarrow> fs),
          conversationHistory = fullConversationHistory,
          max_tokens = 4096,
          temperature = 7 / 10,
          stream = False\<rparr>)"

text \<open>
  Lines 1733-1773: the provider that the user selected. On success the variables are
  assigned, and then line 1764, \<^verbatim>\<open>responseTime = responseTime\<close>, assigns to the
  \<^verbatim>\<open>const\<close> of line 1757: a \<^verbatim>\<open>TypeError\<close>, caught at line 1767 like a failure of
  the provider, where \<^verbatim>\<open>guidance\<close> is set to \<^verbatim>\<open>null\<close>.
\<close>

definition trySelected ::
  "('w \<Rightarrow> int \<times> 'w) \<Rightarrow> 'w provider \<Rightarrow> params \<Rightarrow> vars \<Rightarrow> 'w \<Rightarrow> vars \<times> call_entry \<times> 'w" where
  "trySelected now selectedProvider params v w =
     (let (startTime, w1) = now w;
          (ans, w2) = createChatCompletion selectedProvider params w1;
          entry = \<lparr>callee = name selectedProvider, argument = params, answer = ans\<rparr>
      in case ans of
           Inl providerError \<Rightarrow> (v\<lparr>v_guidance := None\<rparr>, entry, w2)
         | Inr result \<Rightarrow>
             (let (endTime, w3) = now w2 in
              case message result of
                None \<Rightarrow> (v, entry, w3)
              | Some m \<Rightarrow>
                  (v\<lparr>v_guidance := Some (content m),
                     v_provider := name selectedProvider,
                     v_model := model selectedProvider,
                     v_speed := speed selectedProvider\<rparr>
                    \<lparr>v_guidance := None\<rparr>,
                   entry, w3)))"

text \<open>
  Lines 1727-1817, for a non-empty \<^verbatim>\<open>aiProviders\<close>. An absent result of
  \<^verbatim>\<open>callAIWithFallback\<close> would make \<^verbatim>\<open>completion.choices\<close> throw inside the
  \<^verbatim>\<open>try\<close> of line 1779.
\<close>

definition useProviders ::
  "('w \<Rightarrow> int \<times> 'w) \<Rightarrow> 'w provider list \<Rightarrow> request_body \<Rightarrow> params \<Rightarrow> vars \<Rightarrow> 'w
     \<Rightarrow> vars \<times> call_entry list \<times> 'w" where
  "useProviders now aiProviders body params v w =
     (let (v1, calls1, w1) =
            (if truthy (preferredProvider body) \<and> preferredProvider body \<noteq> Some ''auto'' then
               (case find (\<lambda>p. type p = the (preferredProvider body)) aiProviders of
                  None \<Rightarrow> (v, [], w)
                | Some selectedProvider \<Rightarrow>
                    (case trySelected now selectedProvider params v w of
                       (v', entry, w') \<Rightarrow> (v', [entry], w')))
             else (v, [], w))
      in if \<not> truthy (v_guidance v1) then
           (case callAIWithFallback now aiProviders params w1 of
              (Inl aiError, calls2, w2) \<Rightarrow> (v1, calls1 @ calls2, w2)
            | (Inr None, calls2, w2) \<Rightarrow> (v1, calls1 @ calls2, w2)
            | (Inr (Some completion), calls2, w2) \<Rightarrow>
                (case message completion of
                   None \<Rightarrow> (v1, calls1 @ calls2, w2)
                 | Some m \<Rightarrow>
                     (v1\<lparr>v_guidance := Some (content m),
                         v_provider := result_provider completion,
                         v_model := result_model completion,
                         v_speed := result_speed completion,
                         v_responseTime := result_responseTime completion\<rparr>,
                      calls1 @ calls2, w2)))
         else (v1, calls1, w1))"

text \<open>
  The handler (lines 1686-1884). \<open>enhancedSystemPrompt\<close> is the text that lines
  1690-1696 compute from the query. The result is \<open>Inl\<close> when an exception leaves the
  handler, in which case no answer is sent. The \<^verbatim>\<open>catch\<close> of line 1869 calls
  \<^verbatim>\<open>generateEnhancedFallbackGuidance(query)\<close> once more.
\<close>

definition aiGuidance ::
  "('w \<Rightarrow> int \<times> 'w) \<Rightarrow> string \<Rightarrow> (string \<Rightarrow> string) \<Rightarrow> 'w provider list \<Rightarrow> request_body \<Rightarrow> 'w
     \<Rightarrow> (js_error + http_response) \<times> call_entry list \<times> 'w" where
  "aiGuidance now enhancedSystemPrompt page aiProviders body w =
     (if \<not> truthy (query body) \<and> (body_files body = None \<or> body_files body = Some []) then
        (Inr (Status400 ''Query or files are required''), [], w)
      else
        (let v0 = \<lparr>v_guidance = None, v_provider = ''fallback'', v_responseTime = 0,
                   v_model = [], v_speed = []\<rparr>;
             (v1, calls, w1) =
               (if length aiProviders > 0
                then useProviders now aiProviders body (requestParams enhancedSystemPrompt body) v0 w
                else (v0, [], w))
         in if \<not> truthy (v_guidance v1) then
              (let (startTime, w2) = now w1 in
               case generateEnhancedFallbackGuidance page (query body) of
                 Inr g \<Rightarrow>
                   (let (endTime, w3) = now w2 in
                    (Inr (Json \<lparr>success = True, guidance = g,
                                response_provider = ''fallback'',
                                response_model = ''local-fallback'',
                                response_speed = ''Instant'',
                                response_responseTime = endTime - startTime,
                                response_error = None\<rparr>),
                     calls, w3))
               | Inl error \<Rightarrow>
                   (case generateEnhancedFallbackGuidance page (query body) of
                      Inr fallbackGuidance \<Rightarrow>
                        (Inr (Json \<lparr>success = True, guidance = fallbackGuidance,
                                    response_provider = ''fallback-error'',
                                    response_model = ''local-fallback'',
                                    response_speed = ''Instant'',
                                    response_responseTime = 0,
                                    response_error = Some (message_of error)\<rparr>),
                         calls, w2)
                    | Inl error' \<Rightarrow> (Inl error', calls, w2)))
            else
              (Inr (Json \<lparr>success = True, guidance = the (v_guidance v1),
                          response_provider = v_provider v1,
                          response_model = v_model v1,
                          response_speed = v_speed v1,
                          response_responseTime = v_responseTime v1,
                          response_error = None\<rparr>),
               calls, w1)))"

text \<open>
  The shape of the list of invocations that the loop makes from iteration \<open>i\<close> on,
  with the result \<open>r\<close> of the loop: one invocation per provider, in the order of
  \<^verbatim>\<open>aiProviders\<close>, each with \<^verbatim>\<open>modifiedParams\<close>, all but the last one failed, and
  the result is that of the last one.
\<close>

definition log_ok :: "'w provider list \<Rightarrow> params \<Rightarrow> nat \<Rightarrow> (js_error + ai_result option) \<Rightarrow> call_entry list \<Rightarrow> bool" where
  "log_ok ps params i r entries =
     (entries \<noteq> [] \<and> i + length entries \<le> length ps
      \<and> map callee entries = map name (take (length entries) (drop i ps))
      \<and> map argument entries = map (\<lambda>p. modifyParams p params) (take (length entries) (drop i ps))
      \<and> (\<forall>e \<in> set (butlast entries). isl (answer e))
      \<and> (case answer (last entries) of
            Inl err \<Rightarrow> r = Inl err \<and> i + length entries = length ps
          | Inr c \<Rightarrow> (\<exists>res. r = Inr (Some res) \<and> message res = message c
                        \<and> result_provider res = name (ps ! (i + length entries - 1))
                        \<and> result_model res = model (ps ! (i + length entries - 1))
                        \<and> result_speed res = speed (ps ! (i + length entries - 1)))))"

section \<open>Concrete inputs\<close>

text \<open>
  The outside world as a clock that advances by one millisecond at each reading.
  Adapters that always throw and one that always answers; a question with an attached
  image, as a client sends it for the adapters above (\<^verbatim>\<open>name\<close>, \<^verbatim>\<open>type\<close>,
  \<^verbatim>\<open>content\<close>).
\<close>

definition tick :: "nat \<Rightarrow> int \<times> nat" where
  "tick w = (int w, Suc w)"

definition failing :: "string \<Rightarrow> params \<Rightarrow> nat \<Rightarrow> (js_error + completion) \<times> nat" where
  "failing reason p w = (Inl (Error reason), w)"

definition answering :: "string \<Rightarrow> params \<Rightarrow> nat \<Rightarrow> (js_error + completion) \<times> nat" where
  "answering reply p w = (Inr \<lparr>message = Some \<lparr>role = ''assistant'', content = reply\<rparr>\<rparr>, w)"

definition gemini_down :: "nat provider" where
  "gemini_down =
     \<lparr>name = ''Gemini'', type = ''gemini'', priority = 1,
      speed = ''Fast (200+ tokens/sec) - Vision + PDF Support'', model = ''gemini-2.0-flash'',
      createChatCompletion = failing ''All Gemini API keys exhausted - skipping to next provider''\<rparr>"

definition cohere_down :: "nat provider" where
  "cohere_down =
     \<lparr>name = ''Cohere'', type = ''cohere'', priority = 2,
      speed = ''Very Fast (300+ tokens/sec)'', model = ''command-r-08-2024'',
      createChatCompletion = failing ''Cohere API error: 500 - ''\<rparr>"

definition groq_down :: "nat provider" where
  "groq_down =
     \<lparr>name = ''Groq'', type = ''groq'', priority = 3,
      speed = ''Ultra Fast (500+ tokens/sec)'', model = ''llama-3.1-8b-instant'',
      createChatCompletion = failing ''Groq API error: 503 ''\<rparr>"

definition groq_up :: "nat provider" where
  "groq_up =
     \<lparr>name = ''Groq'', type = ''groq'', priority = 3,
      speed = ''Ultra Fast (500+ tokens/sec)'', model = ''llama-3.1-8b-instant'',
      createChatCompletion = answering ''Please describe the image.''\<rparr>"

definition image_file :: jsfile where
  "image_file =
     \<lparr>file_name = Some ''diagram.png'', file_type = Some ''image/png'',
      file_mimeType = None, file_content = Some ''data:image/png;base64,iVBORw0KGgo=''\<rparr>"

definition image_question :: "string option \<Rightarrow> string option \<Rightarrow> request_body" where
  "image_question q preferred =
     \<lparr>query = q, body_files = Some [image_file], preferredProvider = preferred,
      body_conversationHistory = None\<rparr>"

definition plain_question :: params where
  "plain_question =
     requestParams ''You are a tutor.''
       \<lparr>query = Some ''What is inertia?'', body_files = None, preferredProvider = None,
        body_conversationHistory = None\<rparr>"

definition image_params :: params where
  "image_params =
     requestParams ''You are a tutor.'' (image_question (Some ''What does the diagram show?'') None)"

definition fallback_page :: "string \<Rightarrow> string" where
  "fallback_page q = ''<div class=guidance-result>'' @ q @ ''</div>''"

section \<open>Properties of the key rotation\<close>

lemma mod_shift_le:
  assumes "i \<le> j" "j < n" "(c + i) mod n = (c + j) mod (n::nat)"
  shows "i = j"
proof -
  have "(c + j) mod n = (c + i) mod n" "c + i \<le> c + j"
    using assms(1,3) by simp_all
  then have "n dvd (c + j) - (c + i)"
    using mod_eq_dvd_iff_nat [of "c + i" "c + j" n] by blast
  then have "n dvd j - i" by simp
  moreover have "j - i < n" using assms(2) by simp
  ultimately have "j - i = 0"
    using nat_dvd_not_less by blast
  with assms(1) show ?thesis by simp
qed

lemma mod_shift_inj:
  assumes "i < n" "j < n" "(c + i) mod n = (c + j) mod (n::nat)"
  shows "i = j"
proof (cases "i \<le> j")
  case True
  then show ?thesis using assms mod_shift_le by blast
next
  case False
  then have "j \<le> i" by simp
  then show ?thesis using assms mod_shift_le [of j i n c] by simp
qed

lemma cand_fresh:
  assumes "k < length (geminiApiKeys L)"
  shows "cand L k \<notin> cand L ` {0..<k}"
proof
  assume "cand L k \<in> cand L ` {0..<k}"
  then obtain j where j: "j < k" "cand L k = cand L j" by auto
  then have "k = j"
    using assms mod_shift_inj [of k "length (geminiApiKeys L)" j "currentKeyIndex L"]
    by (simp add: cand_def)
  with j show False by simp
qed

lemma passed_0: "passed now L 0 = L"
  by (simp add: passed_def)

lemma passed_fields [simp]:
  "geminiApiKeys (passed now L k) = geminiApiKeys L"
  "currentKeyIndex (passed now L k) = currentKeyIndex L"
  by (simp_all add: passed_def)

lemma passed_at_fresh:
  "k < length (geminiApiKeys L) \<Longrightarrow> keyUsageTracking (passed now L k) (cand L k) = keyUsageTracking L (cand L k)"
  using cand_fresh [of k L] by (simp add: passed_def)

lemma passed_Suc:
  assumes "keyUsageTracking L (cand L k) = Some t"
  shows "(passed now L k)\<lparr>keyUsageTracking := (keyUsageTracking (passed now L k))(cand L k \<mapsto> passOver now t)\<rparr>
         = passed now L (Suc k)"
proof -
  have "(keyUsageTracking (passed now L k))(cand L k \<mapsto> passOver now t)
        = keyUsageTracking (passed now L (Suc k))"
    using assms by (auto simp: passed_def fun_eq_iff atLeast0_lessThan_Suc)
  then show ?thesis by (simp add: passed_def)
qed

lemma scanKeys_pass:
  assumes "k < length (geminiApiKeys L)"
    and "keyUsageTracking L (cand L k) = Some t"
    and "\<not> available now t"
  shows "scanKeys now k (passed now L k) = scanKeys now (Suc k) (passed now L (Suc k))"
proof -
  have tr: "keyUsageTracking (passed now L k) (cand L k) = Some t"
    using assms(1,2) by (simp add: passed_at_fresh)
  have lt: "k < length (geminiApiKeys (passed now L k))"
    using assms(1) by simp
  show ?thesis
  proof (cases "skipped now t")
    case True
    then have c: "(isBlocked (resetIfElapsed now t) \<and> now < blockUntil (resetIfElapsed now t)) = True"
      by (simp add: skipped_def)
    have p: "passOver now t = resetIfElapsed now t"
      using True by (simp add: passOver_def)
    show ?thesis
      apply (subst scanKeys.simps)
      apply (simp only: lt if_True Let_def)
      apply (simp only: passed_fields cand_def [symmetric] tr option.case c if_True)
      using passed_Suc [OF assms(2), of now] by (simp add: p)
  next
    case False
    then have c: "(isBlocked (resetIfElapsed now t) \<and> now < blockUntil (resetIfElapsed now t)) = False"
      by (simp add: skipped_def)
    have q: "(requestCount (resetIfElapsed now t) < RATE_LIMIT) = False"
      using False assms(3) by (simp add: available_def)
    have p: "passOver now t = blockKey (resetIfElapsed now t)"
      using False by (simp add: passOver_def)
    show ?thesis
      apply (subst scanKeys.simps)
      apply (simp only: lt if_True Let_def)
      apply (simp only: passed_fields cand_def [symmetric] tr option.case c q if_False)
      using passed_Suc [OF assms(2), of now] by (simp add: p)
  qed
qed

lemma scanKeys_passed:
  assumes "k \<le> length (geminiApiKeys L)"
    and "\<forall>j<k. \<exists>t. keyUsageTracking L (cand L j) = Some t \<and> \<not> available now t"
  shows "scanKeys now 0 L = scanKeys now k (passed now L k)"
  using assms
proof (induction k)
  case 0
  then show ?case by (simp add: passed_0)
next
  case (Suc k)
  from Suc.prems obtain t where t: "keyUsageTracking L (cand L k) = Some t" "\<not> available now t"
    by blast
  have "scanKeys now 0 L = scanKeys now k (passed now L k)"
    using Suc by simp
  also have "\<dots> = scanKeys now (Suc k) (passed now L (Suc k))"
    using Suc.prems(1) t by (intro scanKeys_pass) simp_all
  finally show ?case .
qed

lemma scanKeys_hit:
  assumes "k < length (geminiApiKeys L)"
    and "keyUsageTracking L (cand L k) = Some t"
    and "available now t"
  shows "scanKeys now k (passed now L k) =
    (Inr (Some (geminiApiKeys L ! cand L k)),
     (passed now L k)\<lparr>keyUsageTracking :=
         (keyUsageTracking (passed now L k))
           (cand L k \<mapsto> (resetIfElapsed now t)\<lparr>requestCount := requestCount (resetIfElapsed now t) + 1\<rparr>),
       currentKeyIndex := (cand L k + 1) mod length (geminiApiKeys L)\<rparr>)"
proof -
  have tr: "keyUsageTracking (passed now L k) (cand L k) = Some t"
    using assms(1,2) by (simp add: passed_at_fresh)
  have c: "(isBlocked (resetIfElapsed now t) \<and> now < blockUntil (resetIfElapsed now t)) = False"
    "requestCount (resetIfElapsed now t) < RATE_LIMIT"
    using assms(3) by (simp_all add: available_def skipped_def)
  show ?thesis
    using assms(1) tr
    by (subst scanKeys.simps) (simp only: c cand_def [symmetric] passed_fields Let_def if_True if_False option.case)
qed

lemma scanKeys_end:
  "scanKeys now (length (geminiApiKeys L)) (passed now L (length (geminiApiKeys L)))
     = (Inr None, passed now L (length (geminiApiKeys L)))"
  by (subst scanKeys.simps) simp

lemma getNextGeminiKey_scan:
  "2 \<le> length (geminiApiKeys L) \<Longrightarrow> getNextGeminiKey now L = scanKeys now 0 L"
  by (auto simp: getNextGeminiKey_def)

lemma passed_lookup_before:
  assumes "j < k"
  shows "keyUsageTracking (passed now L k) (cand L j) = map_option (passOver now) (keyUsageTracking L (cand L j))"
  using assms by (simp add: passed_def)

lemma pool_fields:
  "geminiApiKeys (pool c a b) = [''key-A'', ''key-B'']"
  "currentKeyIndex (pool c a b) = c"
  "keyUsageTracking (pool c a b) 0 = Some a"
  "keyUsageTracking (pool c a b) (Suc 0) = Some b"
  by (simp_all add: pool_def)

lemma pool_cand:
  "cand (pool (Suc 0) a b) 0 = Suc 0" "cand (pool (Suc 0) a b) (Suc 0) = 0"
  "cand (pool 0 a b) 0 = 0" "cand (pool 0 a b) (Suc 0) = Suc 0"
  by (simp_all add: cand_def pool_fields)

lemma usage_tests:
  "skipped 123000 (usage 15 65000 True 125000)"
  "available 123000 (usage 1 122000 False 121000)"
  "\<not> available 40000 (usage 15 0 False 0)"
  "\<not> skipped 40000 (usage 15 0 False 0)"
  by (simp_all add: available_def skipped_def resetIfElapsed_def usage_def MINUTE_def
        RATE_LIMIT_def)

text \<open>
  Claim C3. In a pool of at least two keys, \<^verbatim>\<open>getNextGeminiKey\<close> scans the keys from
  \<^verbatim>\<open>currentKeyIndex\<close> on, in cyclic order. If the first \<open>k\<close> candidates are each
  either skipped (blocked, and the present time is before \<open>blockUntil\<close>) or at the limit,
  and candidate \<open>k\<close> is neither, then the call returns the key of candidate \<open>k\<close>,
  its \<open>requestCount\<close> is one more than before the call (counted from 0 if its minute had
  passed), and the cursor is the position after that candidate. Every test is made on
  the record as lines 350-354 leave it.
\<close>

theorem acquire_first_available:
  assumes "2 \<le> length (geminiApiKeys L)"
    and "k < length (geminiApiKeys L)"
    and "\<forall>j<k. \<exists>u. keyUsageTracking L (cand L j) = Some u \<and> \<not> available now u"
    and "keyUsageTracking L (cand L k) = Some t"
    and "available now t"
  shows "getNextGeminiKey now L =
    (Inr (Some (geminiApiKeys L ! cand L k)),
     (passed now L k)\<lparr>keyUsageTracking :=
         (keyUsageTracking (passed now L k))
           (cand L k \<mapsto> (resetIfElapsed now t)\<lparr>requestCount := requestCount (resetIfElapsed now t) + 1\<rparr>),
       currentKeyIndex := (cand L k + 1) mod length (geminiApiKeys L)\<rparr>)"
proof -
  have "getNextGeminiKey now L = scanKeys now k (passed now L k)"
    using assms(1,2,3) scanKeys_passed [of k L now] by (simp add: getNextGeminiKey_scan)
  then show ?thesis
    using scanKeys_hit [OF assms(2,4,5)] by simp
qed

theorem acquire_first_available_witness:
  "fst (getNextGeminiKey 123000
          (pool (Suc 0) (usage 1 122000 False 121000) (usage 15 65000 True 125000)))
     = Inr (Some ''key-A'')
   \<and> currentKeyIndex (snd (getNextGeminiKey 123000
          (pool (Suc 0) (usage 1 122000 False 121000) (usage 15 65000 True 125000))))
     = Suc 0
   \<and> keyUsageTracking (snd (getNextGeminiKey 123000
          (pool (Suc 0) (usage 1 122000 False 121000) (usage 15 65000 True 125000)))) 0
     = Some (usage 2 122000 False 121000)
   \<and> keyUsageTracking (snd (getNextGeminiKey 123000
          (pool (Suc 0) (usage 1 122000 False 121000) (usage 15 65000 True 125000)))) (Suc 0)
     = Some (usage 15 65000 True 125000)"
proof -
  let ?L = "pool (Suc 0) (usage 1 122000 False 121000) (usage 15 65000 True 125000)"
  have 1: "2 \<le> length (geminiApiKeys ?L)" by (simp add: pool_fields)
  have 2: "Suc 0 < length (geminiApiKeys ?L)" by (simp add: pool_fields)
  have 3: "\<forall>j<Suc 0. \<exists>u. keyUsageTracking ?L (cand ?L j) = Some u \<and> \<not> available 123000 u"
    using usage_tests(1) by (simp add: pool_cand pool_fields available_def)
  have 4: "keyUsageTracking ?L (cand ?L (Suc 0)) = Some (usage 1 122000 False 121000)"
    by (simp add: pool_cand pool_fields)
  have 5: "available 123000 (usage 1 122000 False 121000)"
    by (rule usage_tests)
  show ?thesis
    using acquire_first_available [OF 1 2 3 4 5]
    by (simp add: pool_cand pool_fields passed_def)
       (simp add: usage_def resetIfElapsed_def MINUTE_def passOver_def skipped_def)
qed

text \<open>
  Claim C4. In a pool of at least two keys, every candidate that the scan passes over
  without skipping it, which is one whose \<open>requestCount\<close> has reached the limit, is
  left with \<open>isBlocked\<close> set and \<open>blockUntil\<close> equal to its \<open>lastReset\<close> plus one
  minute, and the scan goes on to the next candidate. When every candidate is skipped or
  at the limit, the call returns \<^verbatim>\<open>null\<close> and leaves the cursor where it was.
\<close>

theorem acquire_blocks_and_exhausts:
  assumes "2 \<le> length (geminiApiKeys L)"
    and "k \<le> length (geminiApiKeys L)"
    and "\<forall>j<k. \<exists>u. keyUsageTracking L (cand L j) = Some u \<and> \<not> available now u"
    and "k < length (geminiApiKeys L) \<longrightarrow>
           (\<exists>t. keyUsageTracking L (cand L k) = Some t \<and> available now t)"
  shows "(\<forall>j<k. \<forall>u. keyUsageTracking L (cand L j) = Some u \<and> \<not> skipped now u \<longrightarrow>
            keyUsageTracking (snd (getNextGeminiKey now L)) (cand L j)
              = Some ((resetIfElapsed now u)
                   \<lparr>isBlocked := True, blockUntil := lastReset (resetIfElapsed now u) + MINUTE\<rparr>))
       \<and> (k = length (geminiApiKeys L) \<longrightarrow>
            fst (getNextGeminiKey now L) = Inr None
            \<and> currentKeyIndex (snd (getNextGeminiKey now L)) = currentKeyIndex L)"
proof -
  have run: "getNextGeminiKey now L = scanKeys now k (passed now L k)"
    using assms(1,2,3) scanKeys_passed [of k L now] by (simp add: getNextGeminiKey_scan)
  have blocked: "keyUsageTracking (passed now L k) (cand L j) = Some (blockKey (resetIfElapsed now u))"
    if "j < k" "keyUsageTracking L (cand L j) = Some u" "\<not> skipped now u" for j u
    using that by (simp add: passed_lookup_before passOver_def)
  show ?thesis
  proof (cases "k = length (geminiApiKeys L)")
    case True
    then have "getNextGeminiKey now L = (Inr None, passed now L k)"
      using run scanKeys_end [of now L] by simp
    then show ?thesis
      using blocked by (simp add: blockKey_def)
  next
    case False
    then have lt: "k < length (geminiApiKeys L)" using assms(2) by simp
    then obtain t where t: "keyUsageTracking L (cand L k) = Some t" "available now t"
      using assms(4) by blast
    have neq: "cand L j \<noteq> cand L k" if "j < k" for j
    proof -
      have "cand L j \<in> cand L ` {0..<k}" using that by simp
      then show ?thesis using cand_fresh [OF lt] by metis
    qed
    have "keyUsageTracking (snd (getNextGeminiKey now L)) (cand L j)
            = keyUsageTracking (passed now L k) (cand L j)" if "j < k" for j
      using run scanKeys_hit [OF lt t] neq [OF that] by simp
    then show ?thesis
      using blocked False by (simp add: blockKey_def)
  qed
qed

theorem acquire_blocks_and_exhausts_witness:
  "keyUsageTracking (snd (getNextGeminiKey 40000
          (pool 0 (usage 15 0 False 0) (usage 15 0 False 0)))) 0
     = Some (usage 15 0 True 60000)
   \<and> keyUsageTracking (snd (getNextGeminiKey 40000
          (pool 0 (usage 15 0 False 0) (usage 15 0 False 0)))) (Suc 0)
     = Some (usage 15 0 True 60000)
   \<and> fst (getNextGeminiKey 40000 (pool 0 (usage 15 0 False 0) (usage 15 0 False 0))) = Inr None
   \<and> currentKeyIndex (snd (getNextGeminiKey 40000
          (pool 0 (usage 15 0 False 0) (usage 15 0 False 0)))) = 0"
proof -
  let ?L = "pool 0 (usage 15 0 False 0) (usage 15 0 False 0)"
  have 1: "2 \<le> length (geminiApiKeys ?L)" by (simp add: pool_fields)
  have 3: "\<forall>j<2. \<exists>u. keyUsageTracking ?L (cand ?L j) = Some u \<and> \<not> available 40000 u"
    using usage_tests(3)
    by (simp add: less_Suc_eq numeral_2_eq_2 pool_cand pool_fields)
  have 4: "2 < length (geminiApiKeys ?L) \<longrightarrow>
           (\<exists>t. keyUsageTracking ?L (cand ?L 2) = Some t \<and> available 40000 t)"
    by (simp add: pool_fields)
  note main = acquire_blocks_and_exhausts [OF 1 1 3 4]
  have h0: "keyUsageTracking ?L (cand ?L 0) = Some (usage 15 0 False 0)
        \<and> \<not> skipped 40000 (usage 15 0 False 0)"
    using usage_tests(4) by (simp add: pool_cand pool_fields)
  have h1: "keyUsageTracking ?L (cand ?L (Suc 0)) = Some (usage 15 0 False 0)
        \<and> \<not> skipped 40000 (usage 15 0 False 0)"
    using usage_tests(4) by (simp add: pool_cand pool_fields)
  have r: "(resetIfElapsed 40000 (usage 15 0 False 0))
             \<lparr>isBlocked := True,
                blockUntil := lastReset (resetIfElapsed 40000 (usage 15 0 False 0)) + MINUTE\<rparr>
           = usage 15 0 True 60000"
    by (simp add: usage_def resetIfElapsed_def MINUTE_def)
  have a: "keyUsageTracking (snd (getNextGeminiKey 40000 ?L)) 0 = Some (usage 15 0 True 60000)"
    using conjunct1 [OF main, rule_format, of 0, OF _ h0] by (simp add: pool_cand r)
  have b: "keyUsageTracking (snd (getNextGeminiKey 40000 ?L)) (Suc 0) = Some (usage 15 0 True 60000)"
    using conjunct1 [OF main, rule_format, of "Suc 0", OF _ h1] by (simp add: pool_cand r)
  have c: "fst (getNextGeminiKey 40000 ?L) = Inr None
       \<and> currentKeyIndex (snd (getNextGeminiKey 40000 ?L)) = 0"
    using conjunct2 [OF main] by (simp add: pool_fields)
  show ?thesis using a b c by simp
qed

lemma single_key_untouched:
  assumes "length (geminiApiKeys L) = 1"
  shows "getNextGeminiKey now L = (Inr (Some (geminiApiKeys L ! 0)), L)"
  using assms by (simp add: getNextGeminiKey_def)

lemma reached_key_reset:
  assumes "2 \<le> length (geminiApiKeys L)"
    and "k < length (geminiApiKeys L)"
    and "\<forall>j<k. \<exists>u. keyUsageTracking L (cand L j) = Some u \<and> \<not> available now u"
    and "keyUsageTracking L (cand L k) = Some t"
    and "now - lastReset t > MINUTE"
  shows "fst (getNextGeminiKey now L) = Inr (Some (geminiApiKeys L ! cand L k))
       \<and> keyUsageTracking (snd (getNextGeminiKey now L)) (cand L k)
           = Some (t\<lparr>requestCount := 0, lastReset := now, isBlocked := False\<rparr>
                    \<lparr>requestCount := 1\<rparr>)"
proof -
  have r: "resetIfElapsed now t = t\<lparr>requestCount := 0, lastReset := now, isBlocked := False\<rparr>"
    using assms(5) by (simp add: resetIfElapsed_def)
  then have av: "available now t"
    by (simp add: available_def skipped_def RATE_LIMIT_def)
  have run: "getNextGeminiKey now L = scanKeys now k (passed now L k)"
    using assms(1,2,3) scanKeys_passed [of k L now] by (simp add: getNextGeminiKey_scan)
  show ?thesis
    using run scanKeys_hit [OF assms(2,4) av] by (simp add: r)
qed

lemma unreached_keys_untouched:
  assumes "2 \<le> length (geminiApiKeys L)"
    and "k < length (geminiApiKeys L)"
    and "\<forall>j<k. \<exists>u. keyUsageTracking L (cand L j) = Some u \<and> \<not> available now u"
    and "keyUsageTracking L (cand L k) = Some t"
    and "available now t"
    and "x \<notin> cand L ` {0..k}"
  shows "keyUsageTracking (snd (getNextGeminiKey now L)) x = keyUsageTracking L x"
proof -
  have run: "getNextGeminiKey now L = scanKeys now k (passed now L k)"
    using assms(1,2,3) scanKeys_passed [of k L now] by (simp add: getNextGeminiKey_scan)
  have nk: "x \<noteq> cand L k" using assms(6) by auto
  have "{0..<k} \<subseteq> {0..k}" by auto
  then have nb: "x \<notin> cand L ` {0..<k}" using assms(6) by blast
  have "keyUsageTracking (snd (getNextGeminiKey now L)) x = keyUsageTracking (passed now L k) x"
    using run scanKeys_hit [OF assms(2,4,5)] nk by simp
  also have "\<dots> = keyUsageTracking L x"
    using nb by (simp add: passed_def)
  finally show ?thesis .
qed

lemma usage_tests2:
  "skipped 100000 (usage 15 70000 True 130000)"
  "available 61000 (usage 15 0 True 60000)"
  by (simp_all add: available_def skipped_def resetIfElapsed_def usage_def MINUTE_def
        RATE_LIMIT_def)

text \<open>
  Claim C5, as the code has it. The reset of lines 350-354 is made for a key when the
  scan reaches it, not for every key on every call. With a single key the call returns
  it and leaves the ledger as it was: no tracking record is read or written. In a pool
  of at least two keys, let candidate \<open>k\<close> be reached by the scan (all candidates before
  it are skipped or at the limit). If its \<open>lastReset\<close> lies more than a minute back, it
  is reset before it is tested: whatever its count and its blocked flag were, the call
  returns this key and leaves its record with \<open>requestCount = 1\<close> (reset to 0, then
  counted), \<open>lastReset\<close> the present time and \<open>isBlocked\<close> cleared. And when candidate
  \<open>k\<close> is the one returned, every key that is not among the candidates up to \<open>k\<close>
  keeps its record unchanged, whether its minute has passed or not.
\<close>

theorem acquire_resets_reached_key:
  "(length (geminiApiKeys L) = 1 \<longrightarrow>
      getNextGeminiKey now L = (Inr (Some (geminiApiKeys L ! 0)), L))
   \<and> (2 \<le> length (geminiApiKeys L) \<and> k < length (geminiApiKeys L)
        \<and> (\<forall>j<k. \<exists>u. keyUsageTracking L (cand L j) = Some u \<and> \<not> available now u)
        \<and> keyUsageTracking L (cand L k) = Some t \<longrightarrow>
      (now - lastReset t > MINUTE \<longrightarrow>
         fst (getNextGeminiKey now L) = Inr (Some (geminiApiKeys L ! cand L k))
         \<and> keyUsageTracking (snd (getNextGeminiKey now L)) (cand L k)
             = Some (t\<lparr>requestCount := 0, lastReset := now, isBlocked := False\<rparr>
                      \<lparr>requestCount := 1\<rparr>))
      \<and> (available now t \<longrightarrow>
           (\<forall>x. x \<notin> cand L ` {0..k} \<longrightarrow>
              keyUsageTracking (snd (getNextGeminiKey now L)) x = keyUsageTracking L x)))"
  using single_key_untouched [of L now]
    reached_key_reset [of L k now t]
    unreached_keys_untouched [of L k now t]
  by blast

theorem acquire_resets_reached_key_witness:
  "getNextGeminiKey 61000 single = (Inr (Some ''key-A''), single)
   \<and> fst (getNextGeminiKey 61000 (pool 0 (usage 15 0 True 60000) (usage 15 0 True 60000)))
       = Inr (Some ''key-A'')
   \<and> keyUsageTracking (snd (getNextGeminiKey 61000
          (pool 0 (usage 15 0 True 60000) (usage 15 0 True 60000)))) 0
       = Some (usage 1 61000 False 60000)
   \<and> keyUsageTracking (snd (getNextGeminiKey 61000
          (pool 0 (usage 15 0 True 60000) (usage 15 0 True 60000)))) (Suc 0)
       = Some (usage 15 0 True 60000)
   \<and> fst (getNextGeminiKey 100000 (pool 0 (usage 15 70000 True 130000) (usage 15 0 True 60000)))
       = Inr (Some ''key-B'')
   \<and> keyUsageTracking (snd (getNextGeminiKey 100000
          (pool 0 (usage 15 70000 True 130000) (usage 15 0 True 60000)))) (Suc 0)
       = Some (usage 1 100000 False 60000)"
proof -
  let ?u = "usage 15 0 True 60000"
  let ?L = "pool 0 ?u ?u"
  let ?M = "pool 0 (usage 15 70000 True 130000) ?u"
  have s: "length (geminiApiKeys single) = 1" "geminiApiKeys single ! 0 = ''key-A''"
    by (simp_all add: single_def)
  have a: "getNextGeminiKey 61000 single = (Inr (Some ''key-A''), single)"
    using acquire_resets_reached_key [of single 61000 0 ?u, THEN conjunct1] s by simp
  have L: "2 \<le> length (geminiApiKeys ?L) \<and> 0 < length (geminiApiKeys ?L)
        \<and> (\<forall>j<0. \<exists>u. keyUsageTracking ?L (cand ?L j) = Some u \<and> \<not> available 61000 u)
        \<and> keyUsageTracking ?L (cand ?L 0) = Some ?u"
    by (simp add: pool_cand pool_fields)
  have e: "61000 - lastReset ?u > MINUTE" by (simp add: MINUTE_def usage_def)
  have x: "Suc 0 \<notin> cand ?L ` {0..0}" by (simp add: pool_cand)
  note mainL = acquire_resets_reached_key [of ?L 61000 0 ?u, THEN conjunct2, rule_format, OF L]
  have b: "fst (getNextGeminiKey 61000 ?L) = Inr (Some ''key-A'')
       \<and> keyUsageTracking (snd (getNextGeminiKey 61000 ?L)) 0 = Some (usage 1 61000 False 60000)"
    using mainL [THEN conjunct1, rule_format, OF e]
    by (simp add: pool_cand pool_fields) (simp add: usage_def)
  have c: "keyUsageTracking (snd (getNextGeminiKey 61000 ?L)) (Suc 0) = Some ?u"
    using mainL [THEN conjunct2, rule_format, OF usage_tests2(2) x]
    by (simp add: pool_fields)
  have M: "2 \<le> length (geminiApiKeys ?M) \<and> Suc 0 < length (geminiApiKeys ?M)
        \<and> (\<forall>j<Suc 0. \<exists>u. keyUsageTracking ?M (cand ?M j) = Some u \<and> \<not> available 100000 u)
        \<and> keyUsageTracking ?M (cand ?M (Suc 0)) = Some ?u"
    using usage_tests2(1) by (simp add: pool_cand pool_fields available_def)
  have e2: "100000 - lastReset ?u > MINUTE" by (simp add: MINUTE_def usage_def)
  have d: "fst (getNextGeminiKey 100000 ?M) = Inr (Some ''key-B'')
       \<and> keyUsageTracking (snd (getNextGeminiKey 100000 ?M)) (Suc 0)
           = Some (usage 1 100000 False 60000)"
    using acquire_resets_reached_key [of ?M 100000 "Suc 0" ?u, THEN conjunct2, rule_format, OF M,
        THEN conjunct1, rule_format, OF e2]
    by (simp add: pool_cand pool_fields) (simp add: usage_def)
  show ?thesis using a b c d by simp
qed

text \<open>
  Claim C5 as stated fails. Both keys were loaded at time 0 and were blocked at their
  limit in the first minute. At time 61000 that minute has passed for both. The call
  resets and returns the first key; the record of the second key still holds 15
  requests and the blocked flag. With a single key the call returns it and touches no
  record: its \<open>lastReset\<close> stays 0.
\<close>

theorem acquire_no_reset_counterexample:
  "61000 - lastReset (usage 15 0 True 60000) > MINUTE
   \<and> keyUsageTracking (pool 0 (usage 15 0 True 60000) (usage 15 0 True 60000)) (Suc 0)
       = Some (usage 15 0 True 60000)
   \<and> fst (getNextGeminiKey 61000 (pool 0 (usage 15 0 True 60000) (usage 15 0 True 60000)))
       = Inr (Some ''key-A'')
   \<and> keyUsageTracking (snd (getNextGeminiKey 61000
          (pool 0 (usage 15 0 True 60000) (usage 15 0 True 60000)))) (Suc 0)
       = Some (usage 15 0 True 60000)
   \<and> 61000 - lastReset (usage 0 0 False 0) > MINUTE
   \<and> keyUsageTracking single 0 = Some (usage 0 0 False 0)
   \<and> getNextGeminiKey 61000 single = (Inr (Some ''key-A''), single)"
proof -
  let ?L = "pool 0 (usage 15 0 True 60000) (usage 15 0 True 60000)"
  have "getNextGeminiKey 61000 ?L = scanKeys 61000 0 ?L"
    by (simp add: getNextGeminiKey_def pool_fields)
  moreover have "fst (scanKeys 61000 0 ?L) = Inr (Some ''key-A'')"
    "keyUsageTracking (snd (scanKeys 61000 0 ?L)) (Suc 0) = Some (usage 15 0 True 60000)"
    by (subst scanKeys.simps,
        simp add: pool_fields resetIfElapsed_def usage_def MINUTE_def RATE_LIMIT_def)+
  moreover have "getNextGeminiKey 61000 single = (Inr (Some ''key-A''), single)"
    by (simp add: getNextGeminiKey_def single_def)
  ultimately show ?thesis
    by (simp add: MINUTE_def pool_fields) (simp add: single_def usage_def)
qed

section \<open>Properties of the key loading\<close>

text \<open>
  When no configured key is blank, every key of the pool has its tracking record, which
  is what the theorems on \<^verbatim>\<open>getNextGeminiKey\<close> assume of the keys that the scan
  reaches. A blank key shifts the indices: the pool then holds a key without a record,
  and the rotation throws.
\<close>

lemma loadKeys_tracking:
  assumes "\<forall>key \<in> set ks. js_trim key \<noteq> []"
    and "length (geminiApiKeys L) = n"
    and "dom (keyUsageTracking L) = {..<n}"
  shows "geminiApiKeys (loadKeys clock (enumerate n ks) L) = geminiApiKeys L @ map js_trim ks
       \<and> dom (keyUsageTracking (loadKeys clock (enumerate n ks) L)) = {..<n + length ks}
       \<and> currentKeyIndex (loadKeys clock (enumerate n ks) L) = currentKeyIndex L"
  using assms
proof (induction ks arbitrary: n L)
  case Nil
  then show ?case by simp
next
  case (Cons key ks)
  let ?L = "L\<lparr>geminiApiKeys := geminiApiKeys L @ [js_trim key],
            keyUsageTracking := (keyUsageTracking L)
              (n \<mapsto> \<lparr>requestCount = 0, lastReset = clock n, isBlocked = False,
                          blockUntil = 0\<rparr>)\<rparr>"
  have ne: "key \<noteq> []" "js_trim key \<noteq> []"
    using Cons.prems(1) by (auto simp: js_trim_def)
  have d: "dom (keyUsageTracking ?L) = {..<Suc n}"
    using Cons.prems(3) by (auto simp: lessThan_Suc)
  have "geminiApiKeys (loadKeys clock (enumerate (Suc n) ks) ?L) = geminiApiKeys ?L @ map js_trim ks
       \<and> dom (keyUsageTracking (loadKeys clock (enumerate (Suc n) ks) ?L)) = {..<Suc n + length ks}
       \<and> currentKeyIndex (loadKeys clock (enumerate (Suc n) ks) ?L) = currentKeyIndex ?L"
  proof (rule Cons.IH)
    show "\<forall>key \<in> set ks. js_trim key \<noteq> []" using Cons.prems(1) by simp
    show "length (geminiApiKeys ?L) = Suc n" using Cons.prems(2) by simp
    show "dom (keyUsageTracking ?L) = {..<Suc n}" by (rule d)
  qed
  then show ?case using ne by simp
qed

lemma initializeGeminiKeys_tracking:
  assumes "\<forall>key \<in> set (envKeys env). js_trim key \<noteq> []"
  shows "geminiApiKeys (initializeGeminiKeys clock env) = map js_trim (envKeys env)"
    and "currentKeyIndex (initializeGeminiKeys clock env) = 0"
    and "i < length (geminiApiKeys (initializeGeminiKeys clock env))
           \<Longrightarrow> \<exists>t. keyUsageTracking (initializeGeminiKeys clock env) i = Some t"
proof -
  let ?L0 = "\<lparr>geminiApiKeys = [], currentKeyIndex = 0, keyUsageTracking = Map.empty\<rparr>"
  have *: "geminiApiKeys (loadKeys clock (enumerate 0 (envKeys env)) ?L0)
              = geminiApiKeys ?L0 @ map js_trim (envKeys env)
       \<and> dom (keyUsageTracking (loadKeys clock (enumerate 0 (envKeys env)) ?L0))
              = {..<0 + length (envKeys env)}
       \<and> currentKeyIndex (loadKeys clock (enumerate 0 (envKeys env)) ?L0) = currentKeyIndex ?L0"
    using assms by (intro loadKeys_tracking) simp_all
  show "geminiApiKeys (initializeGeminiKeys clock env) = map js_trim (envKeys env)"
    and "currentKeyIndex (initializeGeminiKeys clock env) = 0"
    using * by (simp_all add: initializeGeminiKeys_def)
  assume "i < length (geminiApiKeys (initializeGeminiKeys clock env))"
  then have "i \<in> dom (keyUsageTracking (initializeGeminiKeys clock env))"
    using * by (simp add: initializeGeminiKeys_def)
  then show "\<exists>t. keyUsageTracking (initializeGeminiKeys clock env) i = Some t"
    by auto
qed

lemma blank_key_breaks_rotation:
  "geminiApiKeys (initializeGeminiKeys (\<lambda>i. 0) blank_first_env) = [''key-A'', ''key-B'']
   \<and> keyUsageTracking (initializeGeminiKeys (\<lambda>i. 0) blank_first_env) 0 = None
   \<and> fst (getNextGeminiKey 1000 (initializeGeminiKeys (\<lambda>i. 0) blank_first_env))
       = Inl (TypeError ''Cannot read properties of undefined (reading lastReset)'')"
proof -
  have k: "envKeys blank_first_env = ['' '', ''key-A'', ''key-B'']"
    by (simp add: envKeys_def blank_first_env_def truthy_def)
  have t: "js_trim '' '' = []" "js_trim ''key-A'' = ''key-A''" "js_trim ''key-B'' = ''key-B''"
    by (simp_all add: js_trim_def isWhiteSpace_def)
  have g: "geminiApiKeys (initializeGeminiKeys (\<lambda>i. 0) blank_first_env) = [''key-A'', ''key-B'']"
    "keyUsageTracking (initializeGeminiKeys (\<lambda>i. 0) blank_first_env) 0 = None"
    "currentKeyIndex (initializeGeminiKeys (\<lambda>i. 0) blank_first_env) = 0"
    by (simp_all add: initializeGeminiKeys_def k t enumerate_eq_zip upt_rec)
  show ?thesis
    using g by (simp add: getNextGeminiKey_def scanKeys.simps)
qed

text \<open>
  The records that \<^verbatim>\<open>initializeGeminiKeys\<close> creates satisfy \<open>record_ok\<close>, and
  \<^verbatim>\<open>getNextGeminiKey\<close> keeps it. A record that the scan skips is therefore already
  blocked until its \<open>lastReset\<close> plus one minute.
\<close>

lemma record_ok_steps:
  assumes "record_ok t"
  shows "record_ok (resetIfElapsed now t)"
    and "record_ok (blockKey (resetIfElapsed now t))"
    and "requestCount (resetIfElapsed now t) < RATE_LIMIT \<Longrightarrow>
           record_ok ((resetIfElapsed now t)\<lparr>requestCount := requestCount (resetIfElapsed now t) + 1\<rparr>)"
  using assms by (auto simp: record_ok_def resetIfElapsed_def blockKey_def RATE_LIMIT_def)

lemma ledger_ok_update:
  "ledger_ok L \<Longrightarrow> record_ok t \<Longrightarrow> ledger_ok (L\<lparr>keyUsageTracking := (keyUsageTracking L)(x \<mapsto> t)\<rparr>)"
  by (simp add: ledger_ok_def)

lemma ledger_ok_cursor:
  "ledger_ok (L\<lparr>currentKeyIndex := c\<rparr>) = ledger_ok L"
  by (simp add: ledger_ok_def)

lemma scanKeys_step:
  assumes "i < length (geminiApiKeys L)"
    and "keyUsageTracking L (cand L i) = Some t0"
  shows "scanKeys now i L =
     (if skipped now t0 then
        scanKeys now (i + 1)
          (L\<lparr>keyUsageTracking := (keyUsageTracking L)(cand L i \<mapsto> resetIfElapsed now t0)\<rparr>)
      else if requestCount (resetIfElapsed now t0) < RATE_LIMIT then
        (Inr (Some (geminiApiKeys L ! cand L i)),
         L\<lparr>keyUsageTracking :=
              (keyUsageTracking L)(cand L i \<mapsto>
                 (resetIfElapsed now t0)\<lparr>requestCount := requestCount (resetIfElapsed now t0) + 1\<rparr>),
            currentKeyIndex := (cand L i + 1) mod length (geminiApiKeys L)\<rparr>)
      else
        scanKeys now (i + 1)
          (L\<lparr>keyUsageTracking := (keyUsageTracking L)(cand L i \<mapsto> blockKey (resetIfElapsed now t0))\<rparr>))"
  using assms by (subst scanKeys.simps) (simp add: cand_def skipped_def Let_def)

lemma scanKeys_ok:
  "ledger_ok L \<Longrightarrow> ledger_ok (snd (scanKeys now i L))"
proof (induction now i L rule: scanKeys.induct)
  case (1 now i L)
  show ?case
  proof (cases "i < length (geminiApiKeys L)")
    case False
    then show ?thesis using "1.prems" by (subst scanKeys.simps) simp
  next
    case True
    show ?thesis
    proof (cases "keyUsageTracking L (cand L i)")
      case None
      then show ?thesis using True "1.prems" by (subst scanKeys.simps) (simp add: cand_def)
    next
      case (Some t0)
      then have ok: "record_ok t0" using "1.prems" by (auto simp: ledger_ok_def)
      note Some' = Some [unfolded cand_def]
      let ?t1 = "resetIfElapsed now t0"
      show ?thesis
      proof (cases "skipped now t0")
        case skip: True
        then have c: "isBlocked ?t1 \<and> now < blockUntil ?t1" by (simp add: skipped_def)
        have "ledger_ok (L\<lparr>keyUsageTracking := (keyUsageTracking L)(cand L i \<mapsto> ?t1)\<rparr>)"
          using "1.prems" ok by (intro ledger_ok_update record_ok_steps)
        then have "ledger_ok (snd (scanKeys now (i + 1)
                     (L\<lparr>keyUsageTracking := (keyUsageTracking L)(cand L i \<mapsto> ?t1)\<rparr>)))"
          using "1.IH"(1) [OF True refl Some' refl c] by (simp add: cand_def)
        then show ?thesis
          using skip by (simp add: scanKeys_step [OF True Some])
      next
        case noskip: False
        then have c: "\<not> (isBlocked ?t1 \<and> now < blockUntil ?t1)" by (simp add: skipped_def)
        show ?thesis
        proof (cases "requestCount ?t1 < RATE_LIMIT")
          case cap: True
          have "ledger_ok (L\<lparr>keyUsageTracking :=
                  (keyUsageTracking L)(cand L i \<mapsto> ?t1\<lparr>requestCount := requestCount ?t1 + 1\<rparr>)\<rparr>)"
            using "1.prems" ok cap by (intro ledger_ok_update record_ok_steps)
          then show ?thesis
            using noskip cap by (simp add: scanKeys_step [OF True Some] ledger_ok_def)
        next
          case full: False
          have "ledger_ok (L\<lparr>keyUsageTracking := (keyUsageTracking L)(cand L i \<mapsto> blockKey ?t1)\<rparr>)"
            using "1.prems" ok by (intro ledger_ok_update record_ok_steps)
          then have "ledger_ok (snd (scanKeys now (i + 1)
                     (L\<lparr>keyUsageTracking := (keyUsageTracking L)(cand L i \<mapsto> blockKey ?t1)\<rparr>)))"
            using "1.IH"(2) [OF True refl Some' refl c full] by (simp add: cand_def)
          then show ?thesis
            using noskip full by (simp add: scanKeys_step [OF True Some])
        qed
      qed
    qed
  qed
qed

lemma getNextGeminiKey_ok:
  "ledger_ok L \<Longrightarrow> ledger_ok (snd (getNextGeminiKey now L))"
  using scanKeys_ok [of L now 0] by (simp add: getNextGeminiKey_def)

lemma loadKeys_ok:
  "ledger_ok L \<Longrightarrow> ledger_ok (loadKeys clock ks L)"
proof (induction ks arbitrary: L)
  case Nil
  then show ?case by simp
next
  case (Cons a ks)
  obtain index key where a: "a = (index, key)" by (cases a)
  have "ledger_ok (L\<lparr>geminiApiKeys := geminiApiKeys L @ [js_trim key],
            keyUsageTracking := (keyUsageTracking L)
              (index \<mapsto> \<lparr>requestCount = 0, lastReset = clock index, isBlocked = False,
                          blockUntil = 0\<rparr>)\<rparr>)"
    using Cons.prems by (simp add: ledger_ok_def record_ok_def RATE_LIMIT_def)
  then show ?case
    using Cons a by simp
qed

lemma initializeGeminiKeys_ok: "ledger_ok (initializeGeminiKeys clock env)"
  unfolding initializeGeminiKeys_def
  by (rule loadKeys_ok) (simp add: ledger_ok_def)

lemma skipped_already_blocked:
  assumes "record_ok t" and "skipped now t"
  shows "resetIfElapsed now t = t \<and> isBlocked t \<and> blockUntil t = lastReset t + MINUTE"
proof -
  have "resetIfElapsed now t = t"
    using assms(2) by (auto simp: skipped_def resetIfElapsed_def split: if_splits)
  then show ?thesis
    using assms by (simp add: skipped_def record_ok_def)
qed

text \<open>
  The ledgers \<open>pool c a b\<close> of the concrete inputs above are states of this run: after
  the first minute, after the call at 40000, and after the call at 122000.
\<close>

lemma run_exhausts:
  "geminiApiKeys (acquireAll first_minute loaded) = [''key-A'', ''key-B'']"
  "currentKeyIndex (acquireAll first_minute loaded) = 0"
  "keyUsageTracking (acquireAll first_minute loaded) 0 = Some (usage 15 0 False 0)"
  "keyUsageTracking (acquireAll first_minute loaded) (Suc 0) = Some (usage 15 0 False 0)"
  by code_simp+

lemma run_blocks:
  "geminiApiKeys (acquireAll (first_minute @ [40000]) loaded) = [''key-A'', ''key-B'']"
  "currentKeyIndex (acquireAll (first_minute @ [40000]) loaded) = 0"
  "keyUsageTracking (acquireAll (first_minute @ [40000]) loaded) 0 = Some (usage 15 0 True 60000)"
  "keyUsageTracking (acquireAll (first_minute @ [40000]) loaded) (Suc 0) = Some (usage 15 0 True 60000)"
  by code_simp+

lemma run_later:
  "geminiApiKeys (acquireAll (first_minute @ [40000, 61000, 65000] @ second_minute @ [90000, 122000]) loaded)
     = [''key-A'', ''key-B'']"
  "currentKeyIndex (acquireAll (first_minute @ [40000, 61000, 65000] @ second_minute @ [90000, 122000]) loaded)
     = Suc 0"
  "keyUsageTracking (acquireAll (first_minute @ [40000, 61000, 65000] @ second_minute @ [90000, 122000]) loaded) 0
     = Some (usage 1 122000 False 121000)"
  "keyUsageTracking (acquireAll (first_minute @ [40000, 61000, 65000] @ second_minute @ [90000, 122000]) loaded) (Suc 0)
     = Some (usage 15 65000 True 125000)"
  by code_simp+

section \<open>Properties of the key preview\<close>

lemma key_preview_long:
  assumes "14 < length key"
  shows "key_preview key = take 10 key @ ''...'' @ drop (length key - 4) key"
    and "length (key_preview key) = 17"
  using assms by (simp_all add: key_preview_def)

lemma key_preview_short:
  assumes "length key \<le> 10"
  shows "take (length key) (key_preview key) = key"
  using assms by (simp add: key_preview_def)

text \<open>
  Claim C9 fails on a short key. For a key of ten characters the preview begins with
  the whole key.
\<close>

theorem key_preview_exposes_short_key:
  "key_preview ''AIzaSyABC1'' = ''AIzaSyABC1...ABC1''
   \<and> take (length ''AIzaSyABC1'') (key_preview ''AIzaSyABC1'') = ''AIzaSyABC1''"
  by (simp add: key_preview_def)

section \<open>Properties of the Gemini adapter's PDF branch\<close>

lemma showNat_50000: "showNat 50000 = ''50000''"
  by (simp add: showNat.simps)

lemma showNat_3: "showNat 3 = ''3''"
  by (simp add: showNat.simps)

lemma dataContent_Some:
  "dataContent file = Some c \<longleftrightarrow> file_content file = Some c \<and> startsWith c ''data:''"
  by (auto simp: dataContent_def startsWith_def split: option.splits)

lemma pdfSection_truncated:
  assumes "50000 < length extractedText"
  shows "pdfSection file pdfData extractedText =
     ''\<newline>\<newline>'' @ emoji_page @ '' PDF FILE: '' @ str (file_name file) @ ''\<newline>''
     @ ''Pages: '' @ showNat (numpages pdfData) @ ''\<newline>''
     @ ''Note: PDF is large, showing first 50000 characters\<newline>''
     @ ''Content:\<newline>'' @ take 50000 extractedText @ ''\<newline>''
     @ ''\<newline>[End of PDF content]\<newline>''"
  using assms by (simp add: pdfSection_def Let_def showNat_50000)

lemma js_trim_replicate_x: "js_trim (replicate n CHR ''x'') = replicate n CHR ''x''"
  by (simp add: js_trim_def isWhiteSpace_def)

lemma pdf_file_kind: "fileKind pdf_file = PdfFile"
  by (simp add: fileKind_def typeIncludes_def pdf_file_def startsWith_def)

lemma pdf_file_split:
  "splitComma1 ''data:application/pdf;base64,JVBERi0='' = Some ''JVBERi0=''"
  by (simp add: splitComma1_def)

text \<open>
  Claim C8. For an attached file that the Gemini adapter treats as a PDF (by its type,
  or by its name when the type is unknown), whose content is a data URL that
  \<^verbatim>\<open>pdfParse\<close> accepts and whose extracted text \<^verbatim>\<open>pdfData.text.trim()\<close> is longer
  than 50000 characters, the text appended to the prompt is the heading with the file
  name, the line \<^verbatim>\<open>Pages:\<close> with the page count of the PDF, the note that only the first
  50000 characters are shown, and after \<^verbatim>\<open>Content:\<close> exactly the first 50000
  characters of the extracted text.
\<close>

theorem pdf_truncated_fragment:
  assumes "fileKind f = PdfFile \<or> (fileKind f = UnknownFile \<and> namedPdf f)"
    and "file_content f = Some c"
    and "startsWith c ''data:''"
    and "splitComma1 c = Some base64Data"
    and "pdfParse base64Data = Inr pdfData"
    and "50000 < length (js_trim (pdf_text pdfData))"
  shows "prompt_text (processFile pdfParse decodeText parts f) =
     prompt_text parts
     @ ''\<newline>\<newline>'' @ emoji_page @ '' PDF FILE: '' @ str (file_name f) @ ''\<newline>''
     @ ''Pages: '' @ showNat (numpages pdfData) @ ''\<newline>''
     @ ''Note: PDF is large, showing first 50000 characters\<newline>''
     @ ''Content:\<newline>'' @ take 50000 (js_trim (pdf_text pdfData)) @ ''\<newline>''
     @ ''\<newline>[End of PDF content]\<newline>''"
proof -
  have dc: "dataContent f = Some c"
    using assms(2,3) by (simp add: dataContent_Some)
  have pp: "parsePdf pdfParse f = Inr (Some (pdfData, js_trim (pdf_text pdfData)))"
    using dc assms(4,5) by (simp add: parsePdf_def)
  have big: "js_trim (pdf_text pdfData) \<noteq> [] \<and> 10 < length (js_trim (pdf_text pdfData))"
    using assms(6) by auto
  have "prompt_text (processFile pdfParse decodeText parts f) =
          prompt_text parts @ pdfSection f pdfData (js_trim (pdf_text pdfData))"
    using assms(1) pp big by (auto simp: processFile_def)
  then show ?thesis
    using pdfSection_truncated [OF assms(6)] by simp
qed

theorem pdf_truncated_fragment_witness:
  "prompt_text (processFile long_pdf (\<lambda>base64Content. [])
       \<lparr>prompt_text = ''User: summarise'', inline_parts = [], hasFiles = False\<rparr> pdf_file) =
     ''User: summarise''
     @ ''\<newline>\<newline>'' @ emoji_page @ '' PDF FILE: notes.pdf\<newline>''
     @ ''Pages: 3\<newline>''
     @ ''Note: PDF is large, showing first 50000 characters\<newline>''
     @ ''Content:\<newline>'' @ replicate 50000 CHR ''x'' @ ''\<newline>''
     @ ''\<newline>[End of PDF content]\<newline>''"
proof -
  have 1: "fileKind pdf_file = PdfFile \<or> (fileKind pdf_file = UnknownFile \<and> namedPdf pdf_file)"
    by (simp add: pdf_file_kind)
  have 2: "file_content pdf_file = Some ''data:application/pdf;base64,JVBERi0=''"
    by (simp add: pdf_file_def)
  have 3: "startsWith ''data:application/pdf;base64,JVBERi0='' ''data:''"
    by (simp add: startsWith_def)
  have 5: "long_pdf ''JVBERi0='' = Inr \<lparr>pdf_text = replicate 120000 CHR ''x'', numpages = 3\<rparr>"
    by (simp add: long_pdf_def)
  have 6: "50000 < length (js_trim (pdf_text \<lparr>pdf_text = replicate 120000 CHR ''x'', numpages = 3\<rparr>))"
    by (simp add: js_trim_replicate_x)
  show ?thesis
    using pdf_truncated_fragment [where pdfParse = long_pdf and f = pdf_file and decodeText = "\<lambda>base64Content. []", OF 1 2 3 pdf_file_split 5 6]
    by (simp add: js_trim_replicate_x showNat_3 str_def pdf_file_def)
qed

section \<open>Properties of the dispatcher\<close>

lemma attempt_Inl:
  assumes "attempt now p params w = (Inl err, entry, w')"
  shows "entry = \<lparr>callee = name p, argument = modifyParams p params, answer = Inl err\<rparr>"
  using assms by (auto simp: attempt_def Let_def split: prod.splits sum.splits)

lemma attempt_Inr:
  assumes "attempt now p params w = (Inr res, entry, w')"
  shows "\<exists>c. entry = \<lparr>callee = name p, argument = modifyParams p params, answer = Inr c\<rparr>
           \<and> message res = message c \<and> result_provider res = name p
           \<and> result_model res = model p \<and> result_speed res = speed p"
  using assms by (auto simp: attempt_def Let_def split: prod.splits sum.splits)

lemma tryProviders_log:
  assumes "i < length ps" and "tryProviders now ps params i w = (r, entries, w')"
  shows "log_ok ps params i r entries"
  using assms
proof (induction now ps params i w arbitrary: r entries w' rule: tryProviders.induct)
  case (1 now ps params i w)
  obtain a entry w1 where att: "attempt now (ps ! i) params w = (a, entry, w1)"
    by (cases "attempt now (ps ! i) params w") auto
  have "tryProviders now ps params i w =
          (case a of
             Inr result \<Rightarrow> (Inr (Some result), [entry], w1)
           | Inl error \<Rightarrow>
               if i = length ps - 1 then (Inl error, [entry], w1)
               else (case tryProviders now ps params (i + 1) w1 of
                       (r, es, w'') \<Rightarrow> (r, entry # es, w'')))"
    using "1.prems"(1) att by (subst tryProviders.simps) (simp split: sum.splits)
  then have unf: "(r, entries, w') =
          (case a of
             Inr result \<Rightarrow> (Inr (Some result), [entry], w1)
           | Inl error \<Rightarrow>
               if i = length ps - 1 then (Inl error, [entry], w1)
               else (case tryProviders now ps params (i + 1) w1 of
                       (r, es, w'') \<Rightarrow> (r, entry # es, w'')))"
    using "1.prems"(2) by simp
  have dr: "take (Suc 0) (drop i ps) = [ps ! i]"
    using "1.prems"(1) by (simp add: Cons_nth_drop_Suc [symmetric])
  show ?case
  proof (cases a)
    case (Inr res)
    then have eq: "r = Inr (Some res)" "entries = [entry]"
      using unf by simp_all
    from attempt_Inr [of now "ps ! i" params w res entry w1] att Inr
    obtain c where c: "entry = \<lparr>callee = name (ps ! i), argument = modifyParams (ps ! i) params, answer = Inr c\<rparr>"
      "message res = message c" "result_provider res = name (ps ! i)"
      "result_model res = model (ps ! i)" "result_speed res = speed (ps ! i)"
      by auto
    show ?thesis
      using "1.prems"(1) eq c dr by (simp add: log_ok_def)
  next
    case (Inl err)
    from attempt_Inl [of now "ps ! i" params w err entry w1] att Inl
    have e: "entry = \<lparr>callee = name (ps ! i), argument = modifyParams (ps ! i) params, answer = Inl err\<rparr>"
      by simp
    show ?thesis
    proof (cases "i = length ps - 1")
      case True
      then have eq: "r = Inl err" "entries = [entry]"
        using unf Inl by simp_all
      show ?thesis
        using "1.prems"(1) True eq e dr by (simp add: log_ok_def)
    next
      case False
      then have lt: "i + 1 < length ps" using "1.prems"(1) by simp
      obtain r2 es w2 where rec: "tryProviders now ps params (i + 1) w1 = (r2, es, w2)"
        by (cases "tryProviders now ps params (i + 1) w1") auto
      have eq: "r = r2" "entries = entry # es"
        using unf Inl False rec by simp_all
      have ih: "log_ok ps params (i + 1) r2 es"
        using "1.IH" [OF "1.prems"(1) att [symmetric] _ _ False lt rec] Inl by simp
      have dr2: "take (Suc (length es)) (drop i ps) = ps ! i # take (length es) (drop (Suc i) ps)"
        using "1.prems"(1) by (simp add: Cons_nth_drop_Suc [symmetric])
      from ih have n: "es \<noteq> []"
        and b: "Suc i + length es \<le> length ps"
        and cs: "map callee es = map name (take (length es) (drop (Suc i) ps))"
        and ar: "map argument es = map (\<lambda>p. modifyParams p params) (take (length es) (drop (Suc i) ps))"
        and fl: "\<forall>e \<in> set (butlast es). isl (answer e)"
        and la: "case answer (last es) of
            Inl err \<Rightarrow> r2 = Inl err \<and> Suc i + length es = length ps
          | Inr c \<Rightarrow> (\<exists>res. r2 = Inr (Some res) \<and> message res = message c
                        \<and> result_provider res = name (ps ! (Suc i + length es - 1))
                        \<and> result_model res = model (ps ! (Suc i + length es - 1))
                        \<and> result_speed res = speed (ps ! (Suc i + length es - 1)))"
        by (simp_all add: log_ok_def)
      have idx: "i + length (entry # es) - 1 = Suc i + length es - 1" by simp
      have "entries \<noteq> []" "i + length entries \<le> length ps"
        using eq b by simp_all
      moreover have "map callee entries = map name (take (length entries) (drop i ps))"
        using eq e cs dr2 by simp
      moreover have "map argument entries
          = map (\<lambda>p. modifyParams p params) (take (length entries) (drop i ps))"
        using eq e ar dr2 by simp
      moreover have "\<forall>e \<in> set (butlast entries). isl (answer e)"
        using eq e fl n by simp
      moreover have "case answer (last entries) of
            Inl err \<Rightarrow> r = Inl err \<and> i + length entries = length ps
          | Inr c \<Rightarrow> (\<exists>res. r = Inr (Some res) \<and> message res = message c
                        \<and> result_provider res = name (ps ! (i + length entries - 1))
                        \<and> result_model res = model (ps ! (i + length entries - 1))
                        \<and> result_speed res = speed (ps ! (i + length entries - 1)))"
        using la n unfolding eq idx by (simp split: sum.splits)
      ultimately show ?thesis
        unfolding log_ok_def by blast
    qed
  qed
qed


lemma callAIWithFallback_log:
  assumes "aiProviders \<noteq> []"
    and "callAIWithFallback now aiProviders params w = (r, entries, w')"
  shows "log_ok aiProviders params 0 r entries"
  using assms tryProviders_log [of 0 aiProviders now params w r entries w']
  by (simp add: callAIWithFallback_def)

lemma provider_fields:
  "name gemini_down = ''Gemini''" "name cohere_down = ''Cohere''"
  "name groq_down = ''Groq''" "name groq_up = ''Groq''"
  "createChatCompletion gemini_down = failing ''All Gemini API keys exhausted - skipping to next provider''"
  "createChatCompletion cohere_down = failing ''Cohere API error: 500 - ''"
  "createChatCompletion groq_down = failing ''Groq API error: 503 ''"
  "createChatCompletion groq_up = answering ''Please describe the image.''"
  by (simp_all add: gemini_down_def cohere_down_def groq_down_def groq_up_def)

lemma run_up:
  "map callee (fst (snd (callAIWithFallback tick [gemini_down, cohere_down, groq_up] plain_question 0)))
     = [''Gemini'', ''Cohere'', ''Groq'']"
  "map answer (fst (snd (callAIWithFallback tick [gemini_down, cohere_down, groq_up] plain_question 0)))
     = [Inl (Error ''All Gemini API keys exhausted - skipping to next provider''),
        Inl (Error ''Cohere API error: 500 - ''),
        Inr \<lparr>message = Some \<lparr>role = ''assistant'', content = ''Please describe the image.''\<rparr>\<rparr>]"
  by (simp_all add: callAIWithFallback_def tryProviders.simps attempt_def tick_def
        provider_fields failing_def answering_def)

lemma run_down:
  "map callee (fst (snd (callAIWithFallback tick [gemini_down, cohere_down, groq_down] plain_question 0)))
     = [''Gemini'', ''Cohere'', ''Groq'']"
  "map answer (fst (snd (callAIWithFallback tick [gemini_down, cohere_down, groq_down] plain_question 0)))
     = [Inl (Error ''All Gemini API keys exhausted - skipping to next provider''),
        Inl (Error ''Cohere API error: 500 - ''),
        Inl (Error ''Groq API error: 503 '')]"
  by (simp_all add: callAIWithFallback_def tryProviders.simps attempt_def tick_def
        provider_fields failing_def answering_def)

lemma last_of_map3: "map f xs = [a, b, c] \<Longrightarrow> f (last xs) = c \<and> length xs = 3"
  by (auto simp: map_eq_Cons_conv)

text \<open>
  Claim C1. When \<^verbatim>\<open>aiProviders\<close> is not empty, \<^verbatim>\<open>callAIWithFallback\<close> invokes the
  adapters in the order of \<^verbatim>\<open>aiProviders\<close>, each at most once and without a gap:
  the list of its invocations is an initial segment of the registry. Every invocation
  but the last one failed, and when the last one succeeded, its result is what the
  dispatcher returns, under the name of that provider; the dispatcher returns a result
  in no other case. So the first success is returned and no later adapter is invoked.
\<close>

theorem dispatch_first_success:
  assumes "aiProviders \<noteq> []"
    and "callAIWithFallback now aiProviders params w = (r, entries, w')"
  shows "entries \<noteq> [] \<and> length entries \<le> length aiProviders
     \<and> map callee entries = map name (take (length entries) aiProviders)
     \<and> (\<forall>e \<in> set (butlast entries). isl (answer e))
     \<and> (\<forall>c. answer (last entries) = Inr c \<longrightarrow>
            (\<exists>res. r = Inr (Some res) \<and> message res = message c
                 \<and> result_provider res = name (aiProviders ! (length entries - 1))))
     \<and> (\<forall>res. r = Inr res \<longrightarrow> \<not> isl (answer (last entries)))"
  using callAIWithFallback_log [OF assms]
  by (auto simp: log_ok_def split: sum.splits)

theorem dispatch_first_success_witness:
  "[gemini_down, cohere_down, groq_up] \<noteq> []
   \<and> map callee (fst (snd (callAIWithFallback tick [gemini_down, cohere_down, groq_up] plain_question 0)))
       = [''Gemini'', ''Cohere'', ''Groq'']
   \<and> (\<exists>res. fst (callAIWithFallback tick [gemini_down, cohere_down, groq_up] plain_question 0)
              = Inr (Some res)
            \<and> message res = Some \<lparr>role = ''assistant'', content = ''Please describe the image.''\<rparr>
            \<and> result_provider res = ''Groq'')"
proof -
  let ?X = "callAIWithFallback tick [gemini_down, cohere_down, groq_up] plain_question 0"
  have ne: "[gemini_down, cohere_down, groq_up] \<noteq> []" by simp
  have run: "?X = (fst ?X, fst (snd ?X), snd (snd ?X))" by simp
  note main = dispatch_first_success [OF ne run]
  have la: "answer (last (fst (snd ?X)))
      = Inr \<lparr>message = Some \<lparr>role = ''assistant'', content = ''Please describe the image.''\<rparr>\<rparr>"
    and len: "length (fst (snd ?X)) = 3"
    using last_of_map3 [OF run_up(2)] by simp_all
  from main la obtain res where "fst ?X = Inr (Some res)"
    "message res = Some \<lparr>role = ''assistant'', content = ''Please describe the image.''\<rparr>"
    "result_provider res = name ([gemini_down, cohere_down, groq_up] ! (length (fst (snd ?X)) - 1))"
    by auto
  then show ?thesis
    using run_up(1) len by (simp add: provider_fields)
qed

text \<open>
  Claim C2. When every adapter that \<^verbatim>\<open>callAIWithFallback\<close> invoked failed, all the
  providers of the registry were invoked, and the error that the dispatcher throws is the
  one that the last provider of the registry threw.
\<close>

theorem dispatch_last_failure:
  assumes "aiProviders \<noteq> []"
    and "callAIWithFallback now aiProviders params w = (r, entries, w')"
    and "\<forall>e \<in> set entries. isl (answer e)"
  shows "length entries = length aiProviders
     \<and> callee (last entries) = name (last aiProviders)
     \<and> (\<exists>err. answer (last entries) = Inl err \<and> r = Inl err)"
proof -
  have ok: "log_ok aiProviders params 0 r entries"
    using callAIWithFallback_log [OF assms(1,2)] .
  then have ne: "entries \<noteq> []" by (simp add: log_ok_def)
  then have "isl (answer (last entries))" using assms(3) by simp
  then obtain err where err: "answer (last entries) = Inl err"
    by (cases "answer (last entries)") auto
  then have r: "r = Inl err" and len: "length entries = length aiProviders"
    using ok by (simp_all add: log_ok_def)
  have "map callee entries = map name aiProviders"
    using ok len by (simp add: log_ok_def)
  then have "last (map callee entries) = last (map name aiProviders)" by simp
  then have "callee (last entries) = name (last aiProviders)"
    using ne assms(1) by (simp add: last_map)
  then show ?thesis using len err r by simp
qed

theorem dispatch_last_failure_witness:
  "[gemini_down, cohere_down, groq_down] \<noteq> []
   \<and> map answer (fst (snd (callAIWithFallback tick [gemini_down, cohere_down, groq_down] plain_question 0)))
       = [Inl (Error ''All Gemini API keys exhausted - skipping to next provider''),
          Inl (Error ''Cohere API error: 500 - ''),
          Inl (Error ''Groq API error: 503 '')]
   \<and> callee (last (fst (snd (callAIWithFallback tick [gemini_down, cohere_down, groq_down] plain_question 0))))
       = ''Groq''
   \<and> fst (callAIWithFallback tick [gemini_down, cohere_down, groq_down] plain_question 0)
       = Inl (Error ''Groq API error: 503 '')"
proof -
  let ?X = "callAIWithFallback tick [gemini_down, cohere_down, groq_down] plain_question 0"
  have ne: "[gemini_down, cohere_down, groq_down] \<noteq> []" by simp
  have run: "?X = (fst ?X, fst (snd ?X), snd (snd ?X))" by simp
  have "\<forall>a \<in> set (map answer (fst (snd ?X))). isl a"
    unfolding run_down(2) by simp
  then have fails: "\<forall>e \<in> set (fst (snd ?X)). isl (answer e)" by simp
  note main = dispatch_last_failure [OF ne run fails]
  have la: "answer (last (fst (snd ?X))) = Inl (Error ''Groq API error: 503 '')"
    using last_of_map3 [OF run_down(2)] by simp
  show ?thesis
    using main la run_down(2) by (auto simp: provider_fields)
qed

section \<open>Properties of the capability filter\<close>

lemma modifyParams_files:
  assumes "type p = ''groq'' \<or> type p = ''cohere''"
  shows "files (modifyParams p params) = []"
  using assms by (auto simp: modifyParams_def Let_def)

lemma enumerate_map_last:
  "map (\<lambda>(index, msg). if index = n + length ms \<and> P msg then f msg else msg)
       (enumerate n (ms @ [m]))
   = ms @ [if P m then f m else m]"
proof (induction ms arbitrary: n)
  case Nil
  then show ?case by simp
next
  case (Cons a ms)
  have "map (\<lambda>(index, msg). if index = Suc n + length ms \<and> P msg then f msg else msg)
       (enumerate (Suc n) (ms @ [m])) = ms @ [if P m then f m else m]"
    using Cons.IH [of "Suc n"] .
  then show ?case by simp
qed

lemma modifyParams_note:
  assumes "type p = ''groq'' \<or> type p = ''cohere''"
    and "files params \<noteq> []"
    and "messages params = ms @ [m]"
    and "role m = ''user''"
  shows "modifyParams p params =
     params\<lparr>files := [],
            messages := ms @ [m\<lparr>content := withFileNote (content m) (fileInfo (files params))\<rparr>]\<rparr>"
  using assms enumerate_map_last [of 0 ms "\<lambda>msg. role msg = ''user''"
      "\<lambda>msg. msg\<lparr>content := withFileNote (content msg) (fileInfo (files params))\<rparr>" m]
  by (simp add: modifyParams_def Let_def)


lemma js_includes_prefix: "startsWith xs p \<Longrightarrow> js_includes xs p"
  by (cases xs) (simp_all add: startsWith_def)

lemma js_includes_append: "js_includes (a @ p @ b) p"
proof (induction a)
  case Nil
  then show ?case by (simp add: js_includes_prefix startsWith_def)
next
  case (Cons c a)
  then show ?case by simp
qed

lemma js_includes_mid: "js_includes (a @ x @ p @ y @ b) p"
  using js_includes_append [of "a @ x" p "y @ b"] by simp

lemma joinComma_member:
  assumes "x \<in> set xs"
  shows "\<exists>a b. joinComma xs = a @ x @ b"
  using assms
proof (induction xs rule: joinComma.induct)
  case 1
  then show ?case by simp
next
  case (2 y)
  then have "joinComma [y] = [] @ x @ []" by simp
  then show ?case by blast
next
  case (3 y z zs)
  show ?case
  proof (cases "x = y")
    case True
    then have "joinComma (y # z # zs) = [] @ x @ ('', '' @ joinComma (z # zs))" by simp
    then show ?thesis by blast
  next
    case False
    then obtain a b where "joinComma (z # zs) = a @ x @ b"
      using 3 by auto
    then have "joinComma (y # z # zs) = (y @ '', '' @ a) @ x @ b" by simp
    then show ?thesis by blast
  qed
qed

lemma fileInfo_mentions:
  assumes "f \<in> set fs"
  shows "js_includes (fileInfo fs) (str (file_name f))"
    and "js_includes (fileInfo fs) (str (file_mimeType f))"
proof -
  let ?item = "\<lambda>f. emoji_paperclip @ '' '' @ str (file_name f) @ '' ('' @ str (file_mimeType f) @ '')''"
  have "?item f \<in> set (map ?item fs)" using assms by simp
  then obtain a b where ab: "fileInfo fs = a @ ?item f @ b"
    using joinComma_member [of "?item f" "map ?item fs"] by (auto simp: fileInfo_def)
  have "fileInfo fs = (a @ emoji_paperclip @ '' '') @ str (file_name f)
          @ ('' ('' @ str (file_mimeType f) @ '')'' @ b)"
    using ab by simp
  then show "js_includes (fileInfo fs) (str (file_name f))"
    using js_includes_append by metis
  have "fileInfo fs = (a @ emoji_paperclip @ '' '' @ str (file_name f) @ '' ('') @ str (file_mimeType f)
          @ ('')'' @ b)"
    using ab by simp
  then show "js_includes (fileInfo fs) (str (file_mimeType f))"
    using js_includes_append by metis
qed

lemma image_params_fields:
  "files image_params = [image_file]"
  "messages image_params =
     [\<lparr>role = ''system'', content = ''You are a tutor.''\<rparr>]
     @ [\<lparr>role = ''user'', content = ''What does the diagram show?''\<rparr>]"
  by (simp_all add: image_params_def requestParams_def image_question_def truthy_def)

lemma image_note_value:
  "file_type image_file = Some ''image/png''
   \<and> type groq_up = ''groq''
   \<and> files (modifyParams groq_up image_params) = []
   \<and> content (last (messages (modifyParams groq_up image_params))) =
       ''What does the diagram show?''
       @ ''\<newline>\<newline>[Note: User uploaded files: '' @ emoji_paperclip @ '' diagram.png (undefined)''
       @ ''. Please acknowledge that you cannot process these files and ask the user to describe the content instead.]''
   \<and> prompt_text (geminiInitialParts ''User: What does the diagram show?'' (files image_params)) =
       ''User: What does the diagram show?''
       @ ''\<newline>\<newline>'' @ emoji_paperclip @ '' ATTACHED FILES: diagram.png (image/png)\<newline>''
       @ ''IMPORTANT: The user has attached files. Please analyze the attached files and answer based on their content. Do NOT ask the user to provide the files again.\<newline>\<newline>''"
proof -
  have t: "type groq_up = ''groq''" by (simp add: groq_up_def)
  have "modifyParams groq_up image_params =
     image_params\<lparr>files := [],
            messages := [\<lparr>role = ''system'', content = ''You are a tutor.''\<rparr>]
              @ [\<lparr>role = ''user'', content = ''What does the diagram show?''\<rparr>
                   \<lparr>content := withFileNote (content \<lparr>role = ''user'', content = ''What does the diagram show?''\<rparr>)
                       (fileInfo (files image_params))\<rparr>]\<rparr>"
    by (rule modifyParams_note) (simp_all add: t image_params_fields)
  then show ?thesis
    by (simp add: t image_params_fields withFileNote_def fileInfo_def image_file_def str_def
          geminiInitialParts_def)
qed

text \<open>
  Claim C7 fails on the type. For a provider of type \<^verbatim>\<open>groq\<close> or \<^verbatim>\<open>cohere\<close> the
  files are removed and the last user message receives the note with the file names
  (\<open>modifyParams_files\<close>, \<open>modifyParams_note\<close>, \<open>fileInfo_mentions\<close>), but the note
  prints \<^verbatim>\<open>f.mimeType\<close>, while the files carry their type in \<^verbatim>\<open>type\<close>, which is
  what the adapters read and what the Gemini adapter prints in its own list of the
  files. For the image \<^verbatim>\<open>diagram.png\<close> of type \<^verbatim>\<open>image/png\<close> the note sent to Groq
  reads \<^verbatim>\<open>diagram.png (undefined)\<close> and does not contain the type.
\<close>

theorem file_note_prints_undefined_type:
  "file_type image_file = Some ''image/png''
   \<and> files (modifyParams groq_up image_params) = []
   \<and> content (last (messages (modifyParams groq_up image_params))) =
       ''What does the diagram show?''
       @ ''\<newline>\<newline>[Note: User uploaded files: '' @ emoji_paperclip @ '' diagram.png (undefined)''
       @ ''. Please acknowledge that you cannot process these files and ask the user to describe the content instead.]''
   \<and> \<not> js_includes (content (last (messages (modifyParams groq_up image_params)))) ''image/png''"
proof -
  have c: "content (last (messages (modifyParams groq_up image_params))) =
       ''What does the diagram show?''
       @ ''\<newline>\<newline>[Note: User uploaded files: '' @ emoji_paperclip @ '' diagram.png (undefined)''
       @ ''. Please acknowledge that you cannot process these files and ask the user to describe the content instead.]''"
    using image_note_value by simp
  have "\<not> js_includes (content (last (messages (modifyParams groq_up image_params)))) ''image/png''"
    unfolding c by (simp add: emoji_paperclip_def startsWith_def)
  then show ?thesis
    using image_note_value c by simp
qed


section \<open>Properties of the handler\<close>

lemma trySelected_entry:
  "fst (snd (trySelected now p params v w)) =
     \<lparr>callee = name p, argument = params,
      answer = fst (createChatCompletion p params (snd (now w)))\<rparr>"
  by (simp add: trySelected_def Let_def split: prod.splits sum.splits option.splits)

lemma trySelected_guidance:
  "v_guidance v = None \<Longrightarrow> v_guidance (fst (trySelected now p params v w)) = None"
  by (simp add: trySelected_def Let_def split: prod.splits sum.splits option.splits)

lemma useProviders_selected:
  assumes "preferredProvider body = Some t" "t \<noteq> []" "t \<noteq> ''auto''"
    and "find (\<lambda>p. type p = t) aiProviders = Some p"
  shows "\<exists>rest. fst (snd (useProviders now aiProviders body params v w)) =
     \<lparr>callee = name p, argument = params,
      answer = fst (createChatCompletion p params (snd (now w)))\<rparr> # rest"
proof -
  obtain v' entry w' where ts: "trySelected now p params v w = (v', entry, w')"
    by (cases "trySelected now p params v w") auto
  then have e: "entry = \<lparr>callee = name p, argument = params,
      answer = fst (createChatCompletion p params (snd (now w)))\<rparr>"
    using trySelected_entry [of now p params v w] by simp
  show ?thesis
    using assms ts e
    by (auto simp: useProviders_def truthy_def Let_def split: prod.splits sum.splits option.splits)
qed

lemma aiGuidance_calls:
  assumes "truthy (query body) \<or> (\<exists>fs. body_files body = Some fs \<and> fs \<noteq> [])"
    and "aiProviders \<noteq> []"
  shows "fst (snd (aiGuidance now sys page aiProviders body w)) =
     fst (snd (useProviders now aiProviders body (requestParams sys body)
        \<lparr>v_guidance = None, v_provider = ''fallback'', v_responseTime = 0,
           v_model = [], v_speed = []\<rparr> w))"
  using assms
  by (auto simp: aiGuidance_def Let_def split: prod.splits sum.splits option.splits)

text \<open>
  Claim C10. For a request that passes the check of line 1710 and names a provider
  type other than \<^verbatim>\<open>auto\<close> that \<^verbatim>\<open>aiProviders\<close> contains, the first adapter
  invoked is that of the named provider, and its argument is the object built at lines
  1736-1754: the messages as they are and all the files of the request. The filter of
  \<^verbatim>\<open>callAIWithFallback\<close> is not applied to it, whatever the type of the provider.
\<close>

theorem selected_provider_gets_files:
  assumes "truthy (query body) \<or> (\<exists>fs. body_files body = Some fs \<and> fs \<noteq> [])"
    and "preferredProvider body = Some t" and "t \<noteq> []" and "t \<noteq> ''auto''"
    and "find (\<lambda>p. type p = t) aiProviders = Some p"
  shows "(\<exists>rest. fst (snd (aiGuidance now sys page aiProviders body w)) =
            \<lparr>callee = name p, argument = requestParams sys body,
             answer = fst (createChatCompletion p (requestParams sys body) (snd (now w)))\<rparr> # rest)
       \<and> files (requestParams sys body) = (case body_files body of None \<Rightarrow> [] | Some fs \<Rightarrow> fs)"
proof -
  have ne: "aiProviders \<noteq> []" using assms(5) by auto
  show ?thesis
    using aiGuidance_calls [OF assms(1) ne, of now sys page w]
      useProviders_selected [OF assms(2-5)]
    by (simp add: requestParams_def Let_def)
qed

theorem selected_provider_gets_files_witness:
  "(\<exists>rest. fst (snd (aiGuidance tick ''You are a tutor.'' fallback_page [gemini_down, groq_up]
                (image_question (Some ''What does the diagram show?'') (Some ''groq'')) 0)) =
            \<lparr>callee = ''Groq'', argument = image_params,
             answer = Inr \<lparr>message = Some \<lparr>role = ''assistant'', content = ''Please describe the image.''\<rparr>\<rparr>\<rparr>
            # rest)
   \<and> files image_params = [image_file]"
proof -
  let ?body = "image_question (Some ''What does the diagram show?'') (Some ''groq'')"
  have 1: "truthy (query ?body) \<or> (\<exists>fs. body_files ?body = Some fs \<and> fs \<noteq> [])"
    by (simp add: image_question_def truthy_def)
  have 2: "preferredProvider ?body = Some ''groq''" by (simp add: image_question_def)
  have 3: "''groq'' \<noteq> []" "''groq'' \<noteq> ''auto''" by simp_all
  have 4: "find (\<lambda>p. type p = ''groq'') [gemini_down, groq_up] = Some groq_up"
    by (simp add: gemini_down_def groq_up_def)
  have 5: "requestParams ''You are a tutor.'' ?body = image_params"
    by (simp add: image_params_def requestParams_def image_question_def)
  show ?thesis
    using selected_provider_gets_files [OF 1 2 3 4, of tick "''You are a tutor.''" fallback_page 0]
    by (simp add: 5 provider_fields answering_def image_params_fields)
qed

lemma aiGuidance_with_query:
  assumes "truthy (query body)"
  shows "\<exists>resp. fst (aiGuidance now sys page aiProviders body w) = Inr (Json resp)
           \<and> (aiProviders = [] \<longrightarrow> response_provider resp = ''fallback'')"
proof -
  obtain q where q: "query body = Some q" using assms by (auto simp: truthy_def split: option.splits)
  show ?thesis
    using assms q
    by (auto simp: aiGuidance_def generateEnhancedFallbackGuidance_def Let_def
          split: prod.splits sum.splits option.splits)
qed

lemma aiGuidance_empty_request:
  assumes "\<not> truthy (query body)" "body_files body = None \<or> body_files body = Some []"
  shows "aiGuidance now sys page aiProviders body w
           = (Inr (Status400 ''Query or files are required''), [], w)"
  using assms by (simp add: aiGuidance_def)

text \<open>
  Claim C6 fails for a request with files and no query, which the check of line 1710
  accepts. Without providers, or when all of them fail, the handler reaches
  \<^verbatim>\<open>generateEnhancedFallbackGuidance(query)\<close> with an absent query; it throws, the
  \<^verbatim>\<open>catch\<close> of line 1869 calls it once more, and the second exception leaves the
  handler: no answer is sent. With a query the handler always answers, and with no
  provider the answer names the provider \<^verbatim>\<open>fallback\<close> (\<open>aiGuidance_with_query\<close>).
\<close>

theorem guidance_throws_without_query:
  "aiGuidance tick ''You are a tutor.'' fallback_page ([] :: nat provider list)
       (image_question None None) 0
     = (Inl (TypeError ''Cannot read properties of undefined (reading toLowerCase)''), [], Suc 0)
   \<and> fst (aiGuidance tick ''You are a tutor.'' fallback_page [gemini_down, groq_down]
       (image_question None None) 0)
     = Inl (TypeError ''Cannot read properties of undefined (reading toLowerCase)'')"
  by (simp add: aiGuidance_def image_question_def truthy_def tick_def
        generateEnhancedFallbackGuidance_def useProviders_def callAIWithFallback_def
        tryProviders.simps attempt_def provider_fields failing_def Let_def)


end
